theory Spec2Isabelle
  imports Main "HOL-Library.Word"
begin

unbundle bit_operations_syntax

section \<open>The FreeType charmap cache (ftccmap.c)\<close>

text \<open>
  A shallow embedding of \<^verbatim>\<open>ts-freetype2/src/cache/ftccmap.c\<close>: the cmap cache node, its
  callbacks, and \<^verbatim>\<open>FTC_CMapCache_Lookup\<close>.  The C integer types are machine words:
  \<^verbatim>\<open>FT_TS_UInt\<close>, \<^verbatim>\<open>FT_TS_UInt32\<close> and \<^verbatim>\<open>FT_TS_Int\<close> are 32 bits wide
  (a signed value is read with \<open>sint\<close> and compared with \<open>word_sless\<close>),
  \<^verbatim>\<open>FT_TS_UInt16\<close> and \<^verbatim>\<open>FT_TS_UShort\<close> are 16 bits, and \<^verbatim>\<open>FT_TS_Offset\<close>
  (\<^verbatim>\<open>size_t\<close>) is taken at 64 bits.  Pointers to objects that the file does not
  own (face identifiers, charmaps) are opaque handles.
\<close>

type_synonym FT_TS_UInt = "32 word"
type_synonym FT_TS_UInt32 = "32 word"
type_synonym FT_TS_Int = "32 word"
type_synonym FT_TS_UInt16 = "16 word"
type_synonym FT_TS_Offset = "64 word"
type_synonym FTC_FaceID = nat
type_synonym FT_TS_CharMap = nat

subsection \<open>Constants and records\<close>

definition FTC_CMAP_INDICES_MAX :: "32 word" where
  "FTC_CMAP_INDICES_MAX = 128"

text \<open>\<^verbatim>\<open>#define FTC_CMAP_UNKNOWN  (FT_TS_UInt16)~0\<close>\<close>

definition FTC_CMAP_UNKNOWN :: FT_TS_UInt16 where
  "FTC_CMAP_UNKNOWN = NOT 0"

text \<open>
  \<^verbatim>\<open>FTC_CMAP_HASH\<close>.  The macro \<^verbatim>\<open>FTC_FACE_ID_HASH\<close> is declared outside this file
  and is the parameter \<open>fh\<close>.  The product \<^verbatim>\<open>211 * (index)\<close> and the quotient
  \<^verbatim>\<open>(charcode) / FTC_CMAP_INDICES_MAX\<close> are computed at 32 bits before they are
  widened and added to the face hash.
\<close>

definition FTC_CMAP_HASH :: "(FTC_FaceID \<Rightarrow> FT_TS_Offset) \<Rightarrow> FTC_FaceID \<Rightarrow> FT_TS_UInt \<Rightarrow> FT_TS_UInt32 \<Rightarrow> FT_TS_Offset" where
  "FTC_CMAP_HASH fh faceid index charcode =
     fh faceid + ucast (211 * index) + ucast (charcode div FTC_CMAP_INDICES_MAX)"

text \<open>
  The charmap query.  Its fields carry the prefix \<open>q_\<close>, which keeps them
  apart from the fields of the node.
\<close>

record FTC_CMapQueryRec =
  q_face_id :: FTC_FaceID
  q_cmap_index :: FT_TS_UInt
  q_char_code :: FT_TS_UInt32

text \<open>
  The generic node header \<^verbatim>\<open>FTC_NodeRec\<close> belongs to the cache manager; of its
  fields only the hash takes part in finding a node.
\<close>

record FTC_NodeRec =
  hash :: FT_TS_Offset

text \<open>
  The cmap cache node.  The array \<^verbatim>\<open>indices[FTC_CMAP_INDICES_MAX]\<close> is a function
  from positions to 16-bit glyph indices; the code reads and writes it below
  position 128 only.
\<close>

record FTC_CMapNodeRec =
  node :: FTC_NodeRec
  face_id :: FTC_FaceID
  cmap_index :: FT_TS_UInt
  first :: FT_TS_UInt32
  indices :: "nat \<Rightarrow> FT_TS_UInt16"

text \<open>
  The part of \<^verbatim>\<open>FT_TS_FaceRec\<close> that the lookup reads: the number of charmaps, the
  array of charmap handles and the active charmap.  The font's own tables are the
  opaque field \<open>char_index\<close>: the glyph index of a character code under a
  given active charmap.
\<close>

record FT_TS_FaceRec =
  num_charmaps :: FT_TS_Int
  charmaps :: "nat \<Rightarrow> FT_TS_CharMap"
  charmap :: FT_TS_CharMap
  char_index :: "FT_TS_CharMap \<Rightarrow> FT_TS_UInt32 \<Rightarrow> FT_TS_UInt"

text \<open>
  Calls that leave this file are recorded, in order, in a log: resolving a face
  identifier, setting the active charmap of a face, and asking a face for a glyph
  index.
\<close>

datatype call =
    LookupFace FTC_FaceID
  | SetCharmap FTC_FaceID FT_TS_CharMap
  | GetCharIndex FTC_FaceID FT_TS_UInt32

text \<open>
  The cache object.  \<open>nodes\<close> is the store of cmap nodes: a node pointer is a
  position in it, and a node keeps its position as long as it lives.  \<open>memory\<close>
  is the allocator behind \<^verbatim>\<open>cache->memory\<close>: the block it hands out next, with
  whatever content it has, or \<open>None\<close> when it is exhausted.  \<open>faces\<close> is the
  face table of \<^verbatim>\<open>cache->manager\<close>: a face pointer is the face identifier it was
  resolved from.  \<open>calls\<close> is the log.
\<close>

record FTC_CacheRec =
  nodes :: "FTC_CMapNodeRec list"
  memory :: "FTC_CMapNodeRec option"
  faces :: "FTC_FaceID \<Rightarrow> FT_TS_FaceRec option"
  calls :: "call list"

datatype FT_TS_Error = Out_Of_Memory | Invalid_Face_Handle

subsection \<open>Node callbacks\<close>

text \<open>
  The loop \<^verbatim>\<open>for ( nn = 0; nn < FTC_CMAP_INDICES_MAX; nn++ ) node->indices[nn] =
  FTC_CMAP_UNKNOWN;\<close> of \<^verbatim>\<open>ftc_cmap_node_new\<close>.
\<close>

function fill_indices :: "nat \<Rightarrow> (nat \<Rightarrow> FT_TS_UInt16) \<Rightarrow> (nat \<Rightarrow> FT_TS_UInt16)" where
  "fill_indices nn a =
     (if nn < 128 then fill_indices (nn + 1) (a(nn := FTC_CMAP_UNKNOWN)) else a)"
  by pat_completeness auto
termination
  by (relation "measure (\<lambda>(nn, a). 128 - nn)") auto

declare fill_indices.simps [simp del]

text \<open>
  \<^verbatim>\<open>ftc_cmap_node_new\<close>.  \<^verbatim>\<open>FT_TS_QNEW\<close> does not clear the block it returns, so
  the fresh node starts from the allocator's content; the header is left to the
  cache manager.
\<close>

definition ftc_cmap_node_new :: "FTC_CMapQueryRec \<Rightarrow> FTC_CacheRec \<Rightarrow> FT_TS_Error + FTC_CMapNodeRec" where
  "ftc_cmap_node_new query cache =
     (case memory cache of
        None \<Rightarrow> Inl Out_Of_Memory
      | Some nd \<Rightarrow>
          Inr (nd\<lparr> face_id := q_face_id query,
                   cmap_index := q_cmap_index query,
                   first := (q_char_code query div FTC_CMAP_INDICES_MAX) * FTC_CMAP_INDICES_MAX,
                   indices := fill_indices 0 (indices nd) \<rparr>))"

text \<open>
  \<^verbatim>\<open>ftc_cmap_node_weight\<close> returns \<^verbatim>\<open>sizeof ( *cnode )\<close> where \<^verbatim>\<open>cnode\<close> has
  type \<^verbatim>\<open>FTC_Node\<close>: the size of the generic header \<^verbatim>\<open>FTC_NodeRec\<close>.  That
  size is fixed by a declaration outside this file and is the parameter
  \<open>sizeof_FTC_NodeRec\<close>.
\<close>

definition ftc_cmap_node_weight :: "nat \<Rightarrow> FTC_CMapNodeRec \<Rightarrow> FTC_CacheRec \<Rightarrow> nat" where
  "ftc_cmap_node_weight sizeof_FTC_NodeRec cnode cache = sizeof_FTC_NodeRec"

text \<open>
  The size of \<^verbatim>\<open>FTC_CMapNodeRec\<close>: a C struct is at least as large as its members
  together, here the header, the face identifier (a pointer of \<open>sizeof_ptr\<close>
  bytes), two 32-bit fields and 128 16-bit glyph indices; \<open>padding\<close> is whatever
  the compiler adds.
\<close>

definition sizeof_FTC_CMapNodeRec :: "nat \<Rightarrow> nat \<Rightarrow> nat \<Rightarrow> nat" where
  "sizeof_FTC_CMapNodeRec sizeof_FTC_NodeRec sizeof_ptr padding =
     sizeof_FTC_NodeRec + sizeof_ptr + 4 + 4 + 2 * 128 + padding"

text \<open>
  \<^verbatim>\<open>ftc_cmap_node_compare\<close>.  The out-parameter \<^verbatim>\<open>list_changed\<close> is always set
  to \<^verbatim>\<open>FALSE\<close> and is left out.
\<close>

definition ftc_cmap_node_compare :: "FTC_CMapNodeRec \<Rightarrow> FTC_CMapQueryRec \<Rightarrow> bool" where
  "ftc_cmap_node_compare nd query =
     (if face_id nd = q_face_id query \<and> cmap_index nd = q_cmap_index query
      then (let offset = q_char_code query - first nd
            in offset < FTC_CMAP_INDICES_MAX)
      else False)"

text \<open>\<^verbatim>\<open>ftc_cmap_node_remove_faceid\<close>.\<close>

definition ftc_cmap_node_remove_faceid :: "FTC_CMapNodeRec \<Rightarrow> FTC_FaceID \<Rightarrow> bool" where
  "ftc_cmap_node_remove_faceid nd fid = (face_id nd = fid)"

subsection \<open>The collaborators of the lookup\<close>

text \<open>
  Modelled from the spec: the search of the cache manager's find-or-insert, which
  is declared outside this file.  The cache is keyed by the hash plus the
  comparison callback: the node found is the first one stored under the query's
  hash that the callback accepts.
\<close>

fun FTC_Cache_find :: "FT_TS_Offset \<Rightarrow> FTC_CMapQueryRec \<Rightarrow> FTC_CMapNodeRec list \<Rightarrow> nat option" where
  "FTC_Cache_find h query [] = None"
| "FTC_Cache_find h query (nd # nds) =
     (if hash (node nd) = h \<and> ftc_cmap_node_compare nd query then Some 0
      else map_option Suc (FTC_Cache_find h query nds))"

text \<open>
  Modelled from the spec: the macro \<^verbatim>\<open>FTC_CACHE_LOOKUP_CMP\<close> of the cache manager
  is declared outside this file.  The spec gives it as find-or-insert: a node that
  matches is returned; otherwise the constructor callback builds a fresh node, which
  is stored under the query's hash; when construction fails the lookup fails.
  Eviction is the manager's business and ends a node's lifetime; it is not part of
  this model.
\<close>

definition FTC_CACHE_LOOKUP_CMP :: "FTC_CacheRec \<Rightarrow> FT_TS_Offset \<Rightarrow> FTC_CMapQueryRec \<Rightarrow> FT_TS_Error + (nat \<times> FTC_CacheRec)" where
  "FTC_CACHE_LOOKUP_CMP cache h query =
     (case FTC_Cache_find h query (nodes cache) of
        Some p \<Rightarrow> Inr (p, cache)
      | None \<Rightarrow>
          (case ftc_cmap_node_new query cache of
             Inl error \<Rightarrow> Inl error
           | Inr nd \<Rightarrow>
               Inr (length (nodes cache),
                    cache\<lparr> nodes := nodes cache @ [nd\<lparr> node := \<lparr> hash = h \<rparr> \<rparr>] \<rparr>)))"

text \<open>
  Modelled from the spec: \<^verbatim>\<open>FTC_Manager_LookupFace\<close> is the FontResolver: given a
  face identifier it returns a live font object, or an error.
\<close>

definition FTC_Manager_LookupFace :: "FTC_CacheRec \<Rightarrow> FTC_FaceID \<Rightarrow> (FT_TS_Error + FT_TS_FaceRec) \<times> FTC_CacheRec" where
  "FTC_Manager_LookupFace cache fid =
     ((case faces cache fid of None \<Rightarrow> Inl Invalid_Face_Handle | Some face \<Rightarrow> Inr face),
      cache\<lparr> calls := calls cache @ [LookupFace fid] \<rparr>)"

text \<open>
  Modelled from the spec: \<^verbatim>\<open>FT_TS_Set_Charmap\<close> is the FontService capability
  \<^verbatim>\<open>setActiveCharmap\<close>: it makes the given charmap the active one of the face.
  The face is shared with every other user of the face table, so the table itself
  is updated.
\<close>

definition FT_TS_Set_Charmap :: "FTC_FaceID \<Rightarrow> FT_TS_CharMap \<Rightarrow> FTC_CacheRec \<Rightarrow> FTC_CacheRec" where
  "FT_TS_Set_Charmap fid cmap cache =
     cache\<lparr> faces := (faces cache)(fid := map_option (\<lambda>face. face\<lparr> charmap := cmap \<rparr>) (faces cache fid)),
            calls := calls cache @ [SetCharmap fid cmap] \<rparr>"

text \<open>
  Modelled from the spec: \<^verbatim>\<open>FT_TS_Get_Char_Index\<close> is the FontService capability
  \<^verbatim>\<open>glyphIndexForChar\<close>: the glyph index of the character code under the charmap
  that is active on the face when it is asked.
\<close>

definition FT_TS_Get_Char_Index :: "FTC_FaceID \<Rightarrow> FT_TS_UInt32 \<Rightarrow> FTC_CacheRec \<Rightarrow> FT_TS_UInt \<times> FTC_CacheRec" where
  "FT_TS_Get_Char_Index fid charcode cache =
     ((case faces cache fid of None \<Rightarrow> 0 | Some face \<Rightarrow> char_index face (charmap face) charcode),
      cache\<lparr> calls := calls cache @ [GetCharIndex fid charcode] \<rparr>)"

subsection \<open>The lookup\<close>

text \<open>
  \<^verbatim>\<open>FTC_CMapCache_Lookup\<close>.  The cache handle may be null (\<open>None\<close>).  The result
  is the glyph index together with the cache as the call leaves it.  \<open>cmap_index\<close>
  is not negative where it indexes \<^verbatim>\<open>face->charmaps\<close>, so it is read unsigned there.
\<close>

definition FTC_CMapCache_Lookup :: "(FTC_FaceID \<Rightarrow> FT_TS_Offset) \<Rightarrow> FTC_CacheRec option \<Rightarrow> FTC_FaceID \<Rightarrow> FT_TS_Int \<Rightarrow> FT_TS_UInt32 \<Rightarrow> FT_TS_UInt \<times> FTC_CacheRec option" where
  "FTC_CMapCache_Lookup fh cmap_cache fid cmap_index0 char_code =
     (let no_cmap_change = (cmap_index0 <s 0);
          cmap_index = (if cmap_index0 <s 0 then 0 else cmap_index0)
      in case cmap_cache of
           None \<Rightarrow> (0, None)
         | Some cache \<Rightarrow>
             (let query = \<lparr> q_face_id = fid, q_cmap_index = cmap_index, q_char_code = char_code \<rparr>;
                  h = FTC_CMAP_HASH fh fid cmap_index char_code
              in case FTC_CACHE_LOOKUP_CMP cache h query of
                   Inl error \<Rightarrow> (0, Some cache)
                 | Inr (p, cache1) \<Rightarrow>
                     (let nd = nodes cache1 ! p
                      in if char_code - first nd \<ge> FTC_CMAP_INDICES_MAX then (0, Some cache1)
                         else
                           (let gindex = (ucast (indices nd (unat (char_code - first nd))) :: FT_TS_UInt)
                            in if gindex = ucast FTC_CMAP_UNKNOWN
                               then
                                 (case FTC_Manager_LookupFace cache1 (face_id nd) of
                                    (Inl error, cache2) \<Rightarrow> (0, Some cache2)
                                  | (Inr face, cache2) \<Rightarrow>
                                      (let (gindex, cache3) =
                                             (if cmap_index < num_charmaps face
                                              then
                                                (let old = charmap face;
                                                     cmap = charmaps face (unat cmap_index);
                                                     c1 = (if old \<noteq> cmap \<and> \<not> no_cmap_change
                                                           then FT_TS_Set_Charmap (face_id nd) cmap cache2
                                                           else cache2);
                                                     (g, c2) = FT_TS_Get_Char_Index (face_id nd) char_code c1;
                                                     c3 = (if old \<noteq> cmap \<and> \<not> no_cmap_change
                                                           then FT_TS_Set_Charmap (face_id nd) old c2
                                                           else c2)
                                                 in (g, c3))
                                              else (0, cache2))
                                       in (gindex,
                                           Some (cache3\<lparr> nodes := (nodes cache3)
                                                   [p := nd\<lparr> indices := (indices nd)
                                                           (unat (char_code - first nd) := ucast gindex) \<rparr>] \<rparr>))))
                               else (gindex, Some cache1)))))"

text \<open>
  What happens to a cache between two lookups: another lookup, with any arguments,
  or a change of the world outside (faces are loaded and unloaded, memory is used
  and released).  Nodes are not evicted: the relation follows a cache through the
  lifetime of its nodes.
\<close>

inductive cache_step :: "(FTC_FaceID \<Rightarrow> FT_TS_Offset) \<Rightarrow> FTC_CacheRec \<Rightarrow> FTC_CacheRec \<Rightarrow> bool"
  for fh :: "FTC_FaceID \<Rightarrow> FT_TS_Offset" where
  lookup_step: "FTC_CMapCache_Lookup fh (Some cache) fid idx char_code = (g, Some cache')
                 \<Longrightarrow> cache_step fh cache cache'"
| world_step: "cache_step fh cache (cache\<lparr> faces := fs, memory := m \<rparr>)"

subsection \<open>Reading the cache\<close>

text \<open>
  The lookup turns a negative charmap index into 0 before it builds the query and
  the hash.  The following functions read a cache the way the lookup addresses it:
  the query and the node that a triple of face identifier, charmap index and
  character code selects, the 16-bit entry stored for it, and whether the entry is
  still to be resolved (it holds the sentinel, or there is no node yet and memory
  for a fresh one).
\<close>

definition norm_cmap_index :: "FT_TS_Int \<Rightarrow> FT_TS_UInt" where
  "norm_cmap_index idx = (if idx <s 0 then 0 else idx)"

definition cmap_query :: "FTC_FaceID \<Rightarrow> FT_TS_Int \<Rightarrow> FT_TS_UInt32 \<Rightarrow> FTC_CMapQueryRec" where
  "cmap_query fid idx code =
     \<lparr> q_face_id = fid, q_cmap_index = norm_cmap_index idx, q_char_code = code \<rparr>"

definition cmap_node_of :: "(FTC_FaceID \<Rightarrow> FT_TS_Offset) \<Rightarrow> FTC_CacheRec \<Rightarrow> FTC_FaceID \<Rightarrow> FT_TS_Int \<Rightarrow> FT_TS_UInt32 \<Rightarrow> nat option" where
  "cmap_node_of fh cache fid idx code =
     FTC_Cache_find (FTC_CMAP_HASH fh fid (norm_cmap_index idx) code)
       (cmap_query fid idx code) (nodes cache)"

definition cmap_entry :: "(FTC_FaceID \<Rightarrow> FT_TS_Offset) \<Rightarrow> FTC_CacheRec \<Rightarrow> FTC_FaceID \<Rightarrow> FT_TS_Int \<Rightarrow> FT_TS_UInt32 \<Rightarrow> FT_TS_UInt16 option" where
  "cmap_entry fh cache fid idx code =
     map_option (\<lambda>p. indices (nodes cache ! p) (unat (code - first (nodes cache ! p))))
       (cmap_node_of fh cache fid idx code)"

definition unresolved :: "(FTC_FaceID \<Rightarrow> FT_TS_Offset) \<Rightarrow> FTC_CacheRec \<Rightarrow> FTC_FaceID \<Rightarrow> FT_TS_Int \<Rightarrow> FT_TS_UInt32 \<Rightarrow> bool" where
  "unresolved fh cache fid idx code =
     (case cmap_entry fh cache fid idx code of
        Some v \<Rightarrow> v = FTC_CMAP_UNKNOWN
      | None \<Rightarrow> memory cache \<noteq> None)"

text \<open>
  The part of a node that finding looks at, and the order in which a cache grows:
  nodes keep their place and their key, and an entry that holds a glyph index keeps
  it.
\<close>

definition node_key :: "FTC_CMapNodeRec \<Rightarrow> FT_TS_Offset \<times> FTC_FaceID \<times> FT_TS_UInt \<times> FT_TS_UInt32" where
  "node_key nd = (hash (node nd), face_id nd, cmap_index nd, first nd)"

definition cache_le :: "FTC_CacheRec \<Rightarrow> FTC_CacheRec \<Rightarrow> bool" where
  "cache_le c c' \<longleftrightarrow>
     length (nodes c) \<le> length (nodes c') \<and>
     (\<forall>k<length (nodes c).
        node_key (nodes c' ! k) = node_key (nodes c ! k) \<and>
        (\<forall>i. indices (nodes c ! k) i \<noteq> FTC_CMAP_UNKNOWN \<longrightarrow>
             indices (nodes c' ! k) i = indices (nodes c ! k) i))"

subsection \<open>A small font and cache\<close>

text \<open>
  A face with two charmaps, with handles 10 and 11, of which the second is active.
  Under charmap 10 the character codes 65, 66 and 67 have the glyph indices 36,
  65537 and 65535; under charmap 11 the code 65 has glyph index 7.  The cache is
  empty, knows the face under the identifier 1, and has memory for fresh nodes.
  \<open>demo_cache_after code v cs\<close> is that cache after one lookup that stored
  \<open>v\<close> for \<open>code\<close> and made the calls \<open>cs\<close>.
\<close>

definition demo_hash :: "FTC_FaceID \<Rightarrow> FT_TS_Offset" where
  "demo_hash i = of_nat i"

definition demo_face :: FT_TS_FaceRec where
  "demo_face =
     \<lparr> num_charmaps = 2,
       charmaps = (\<lambda>i. if i = 0 then 10 else 11),
       charmap = 11,
       char_index = (\<lambda>cm code.
          if cm = 10 then
            (if code = 65 then 36 else if code = 66 then 0x10001
             else if code = 67 then 0xFFFF else 0)
          else if cm = 11 \<and> code = 65 then 7 else 0) \<rparr>"

definition demo_raw :: FTC_CMapNodeRec where
  "demo_raw = \<lparr> node = \<lparr> hash = 0 \<rparr>, face_id = 0, cmap_index = 0, first = 0,
                indices = (\<lambda>i. 0) \<rparr>"

definition demo_cache :: FTC_CacheRec where
  "demo_cache = \<lparr> nodes = [], memory = Some demo_raw,
                  faces = [1 \<mapsto> demo_face],
                  calls = [] \<rparr>"

definition demo_cache_after :: "FT_TS_UInt32 \<Rightarrow> FT_TS_UInt16 \<Rightarrow> call list \<Rightarrow> FTC_CacheRec" where
  "demo_cache_after code v cs =
     \<lparr> nodes = [\<lparr> node = \<lparr> hash = FTC_CMAP_HASH demo_hash 1 0 code \<rparr>,
                  face_id = 1, cmap_index = 0, first = 0,
                  indices = (fill_indices 0 (\<lambda>i. 0))(unat code := v) \<rparr>],
       memory = Some demo_raw,
       faces = [1 \<mapsto> demo_face],
       calls = cs \<rparr>"

definition demo_new_node :: FTC_CMapNodeRec where
  "demo_new_node = \<lparr> node = \<lparr> hash = 0 \<rparr>, face_id = 1, cmap_index = 0, first = 256,
                     indices = fill_indices 0 (\<lambda>i. 0) \<rparr>"

section \<open>Properties\<close>

subsection \<open>Words\<close>

lemma bucket_start_unat:
  "unat ((c :: 32 word) div 128 * 128) = unat c div 128 * 128"
proof -
  have "unat c div 128 * 128 \<le> unat c" by simp
  moreover have "unat c < 2 ^ 32" using unsigned_less [of c, where ?'a = nat] by simp
  ultimately have "unat c div 128 * 128 < 2 ^ 32" by linarith
  moreover have "unat c div 128 < 2 ^ 32" using \<open>unat c < 2 ^ 32\<close> by (simp add: less_imp_diff_less div_le_dividend le_less_trans)
  ultimately show ?thesis
    by (simp add: unat_word_ariths unat_div)
qed

lemma bucket_start_le: "(c :: 32 word) div 128 * 128 \<le> c"
  by (simp add: word_le_nat_alt bucket_start_unat)

lemma bucket_offset_less: "(c :: 32 word) - c div 128 * 128 < 128"
  using bucket_start_le[of c]
  by (simp add: word_less_nat_alt unat_sub bucket_start_unat) 

lemma aligned_offset:
  fixes c f :: "32 word"
  assumes al: "128 dvd unat f" and off: "c - f < 128"
  shows "unat f \<le> unat c \<and> unat c < unat f + 128"
proof -
  have fl: "unat f < 2 ^ 32" using unsigned_less [of f, where ?'a = nat] by simp
  have cl: "unat c < 2 ^ 32" using unsigned_less [of c, where ?'a = nat] by simp
  from al obtain k where k: "unat f = 128 * k" by (auto simp: dvd_def)
  with fl have fb: "unat f + 128 \<le> 2 ^ 32" by simp
  from off have o: "unat (c - f) < 128" by (simp add: word_less_nat_alt)
  show ?thesis
  proof (cases "f \<le> c")
    case True
    then have "unat (c - f) = unat c - unat f" by (simp add: unat_sub)
    with o True show ?thesis by (simp add: word_le_nat_alt)
  next
    case False
    then have "unat c < unat f" by (simp add: word_le_nat_alt)
    then have "unat (c - f) = 2 ^ 32 + unat c - unat f"
      by (simp add: unat_sub_if_size word_size)
    with o fb show ?thesis by simp
  qed
qed

lemma ucast_16_32_id: "(ucast (ucast (v :: 16 word) :: 32 word) :: 16 word) = v"
  by (simp add: ucast_up_ucast_id is_up)

lemma ucast_16_32_inj: "(ucast (v :: 16 word) :: 32 word) = ucast w \<longleftrightarrow> v = w"
  using ucast_16_32_id by metis

lemma ucast_16_32_and: "(ucast (ucast (g :: 32 word) :: 16 word) :: 32 word) = g AND 0xFFFF"
proof -
  have "(ucast (ucast g :: 16 word) :: 32 word) = g AND mask 16"
    by (rule bit_word_eqI) (auto simp: bit_simps)
  then show ?thesis by (simp add: mask_eq_exp_minus_1)
qed

lemma UNKNOWN_eq: "FTC_CMAP_UNKNOWN = 0xFFFF"
  by (simp add: FTC_CMAP_UNKNOWN_def)

lemma ucast_UNKNOWN: "(ucast FTC_CMAP_UNKNOWN :: 32 word) = 0xFFFF"
  by (simp add: UNKNOWN_eq)

lemma low_bits_sentinel:
  "(ucast (g :: 32 word) :: 16 word) = FTC_CMAP_UNKNOWN \<longleftrightarrow> g AND 0xFFFF = 0xFFFF"
proof -
  have "(ucast g :: 16 word) = FTC_CMAP_UNKNOWN \<longleftrightarrow>
        (ucast (ucast g :: 16 word) :: 32 word) = ucast FTC_CMAP_UNKNOWN"
    by (simp add: ucast_16_32_inj)
  also have "\<dots> \<longleftrightarrow> g AND 0xFFFF = 0xFFFF"
    by (simp add: ucast_16_32_and ucast_UNKNOWN)
  finally show ?thesis .
qed

lemma and_ffff_le: "(g :: 32 word) AND 0xFFFF \<le> 0xFFFF"
  using word_and_le1 by blast

lemma wide_index_cut: "0x10000 \<le> (g :: 32 word) \<Longrightarrow> g AND 0xFFFF \<noteq> g"
proof
  assume w: "0x10000 \<le> g" and "g AND 0xFFFF = g"
  with and_ffff_le [of g] have "g \<le> 0xFFFF" by simp
  with w have "(0x10000 :: 32 word) \<le> 0xFFFF" by (rule order_trans)
  then show False by simp
qed

lemma small_index_kept: "(g :: 32 word) < 0x10000 \<Longrightarrow> g AND 0xFFFF = g"
proof -
  assume "g < 0x10000"
  then have "g < 2 ^ 16" by simp
  then have "g AND mask 16 = g" by (rule less_mask_eq)
  then show ?thesis by (simp add: mask_eq_exp_minus_1)
qed

lemma wide_numeral_16: "(65537 :: 16 word) = 1"
  by simp

lemma sint_nonneg_uint:
  fixes a :: "32 word"
  assumes "\<not> a <s 0"
  shows "sint a = uint a"
proof -
  from assms have "\<not> sint a < 0" by (simp add: word_sless_alt)
  then have nb: "\<not> bit (uint a) 31"
    by (simp add: sint_uint signed_take_bit_negative_iff)
  have "uint a < 2 ^ 32" using uint_lt2p [of a] by simp
  then have "take_bit 32 (uint a) = uint a" by (simp add: take_bit_int_eq_self)
  then have t: "take_bit 31 (uint a) = uint a"
    using nb take_bit_Suc_from_most [of 31 "uint a"] by simp
  have "sint a = signed_take_bit 31 (uint a)" by (simp add: sint_uint)
  also have "\<dots> = take_bit 31 (uint a)" using nb by (rule signed_take_bit_eq_if_positive)
  finally show ?thesis using t by simp
qed

lemma sless_imp_less:
  fixes a b :: "32 word"
  assumes "\<not> a <s 0" and "a <s b"
  shows "a < b"
proof -
  from assms(2) have l: "sint a < sint b" by (simp add: word_sless_alt)
  have a: "sint a = uint a" using assms(1) by (rule sint_nonneg_uint)
  then have "0 \<le> sint a" by simp
  with l have "\<not> b <s 0" by (simp add: word_sless_alt)
  then have "sint b = uint b" by (rule sint_nonneg_uint)
  with l a show ?thesis by (simp add: word_less_alt)
qed

lemma not_sless_imp_not_less:
  fixes a b :: "32 word"
  assumes "\<not> a <s 0" and "\<not> b <s 0" and "\<not> a <s b"
  shows "\<not> a < b"
  using assms sint_nonneg_uint [of a] sint_nonneg_uint [of b]
  by (simp add: word_sless_alt word_less_alt)

lemma norm_cmap_index_nonneg: "\<not> norm_cmap_index idx <s 0"
  by (simp add: norm_cmap_index_def)

subsection \<open>Node callbacks\<close>

lemma fill_indices_eq:
  "fill_indices nn a i = (if nn \<le> i \<and> i < 128 then FTC_CMAP_UNKNOWN else a i)"
proof (induction nn a rule: fill_indices.induct)
  case (1 nn a)
  show ?case
  proof (cases "nn < 128")
    case True
    have "fill_indices nn a i = fill_indices (nn + 1) (a(nn := FTC_CMAP_UNKNOWN)) i"
      using True by (subst fill_indices.simps) simp
    also have "\<dots> = (if nn + 1 \<le> i \<and> i < 128 then FTC_CMAP_UNKNOWN
                      else (a(nn := FTC_CMAP_UNKNOWN)) i)"
      using "1" [OF True] .
    also have "\<dots> = (if nn \<le> i \<and> i < 128 then FTC_CMAP_UNKNOWN else a i)"
      using True by auto
    finally show ?thesis .
  next
    case False
    then show ?thesis
      by (subst fill_indices.simps) auto
  qed
qed

lemma node_new_Inr:
  assumes "ftc_cmap_node_new query cache = Inr nd"
  shows "first nd = (q_char_code query div 128) * 128
       \<and> 128 dvd unat (first nd)
       \<and> unat (first nd) \<le> unat (q_char_code query)
       \<and> unat (q_char_code query) - unat (first nd) < 128
       \<and> q_char_code query - first nd < 128
       \<and> (\<forall>i<128. indices nd i = 0xFFFF)"
proof -
  from assms obtain raw where raw: "memory cache = Some raw"
    and nd: "nd = raw\<lparr> face_id := q_face_id query, cmap_index := q_cmap_index query,
                      first := (q_char_code query div 128) * 128,
                      indices := fill_indices 0 (indices raw) \<rparr>"
    by (auto simp: ftc_cmap_node_new_def FTC_CMAP_INDICES_MAX_def split: option.splits)
  have f: "first nd = (q_char_code query div 128) * 128" by (simp add: nd)
  have u: "unat (first nd) = unat (q_char_code query) div 128 * 128"
    by (simp add: f bucket_start_unat)
  have o: "q_char_code query - first nd < 128"
    by (simp add: f bucket_offset_less)
  have i: "\<forall>i<128. indices nd i = 0xFFFF"
    by (simp add: nd fill_indices_eq FTC_CMAP_UNKNOWN_def)
  from u have "unat (q_char_code query) - unat (first nd) = unat (q_char_code query) mod 128"
    by (simp add: minus_div_mult_eq_mod)
  then have m: "unat (q_char_code query) - unat (first nd) < 128" by simp
  show ?thesis using f u o i m by simp
qed

lemma compare_simp:
  "ftc_cmap_node_compare nd q \<longleftrightarrow>
     face_id nd = q_face_id q \<and> cmap_index nd = q_cmap_index q
     \<and> q_char_code q - first nd < 128"
  by (auto simp: ftc_cmap_node_compare_def FTC_CMAP_INDICES_MAX_def Let_def)

subsection \<open>Finding and inserting nodes\<close>

lemma find_Some:
  "FTC_Cache_find h q ns = Some p \<Longrightarrow>
     p < length ns \<and> hash (node (ns ! p)) = h \<and> ftc_cmap_node_compare (ns ! p) q"
proof (induction ns arbitrary: p)
  case Nil
  then show ?case by simp
next
  case (Cons n ns)
  then show ?case by (auto split: if_splits)
qed

lemma find_append_Some:
  "FTC_Cache_find h q ns = Some p \<Longrightarrow> FTC_Cache_find h q (ns @ ms) = Some p"
  by (induction ns arbitrary: p) (auto split: if_splits)

lemma find_append_None:
  "FTC_Cache_find h q ns = None \<Longrightarrow>
   FTC_Cache_find h q (ns @ [m]) =
     (if hash (node m) = h \<and> ftc_cmap_node_compare m q then Some (length ns) else None)"
  by (induction ns) (auto split: if_splits)

lemma find_cong_keys:
  "map node_key ns = map node_key ms \<Longrightarrow> FTC_Cache_find h q ns = FTC_Cache_find h q ms"
proof (induction ns arbitrary: ms)
  case Nil
  then show ?case by simp
next
  case (Cons n ns)
  then obtain m ms' where ms: "ms = m # ms'" by (cases ms) auto
  with Cons.prems have k: "node_key n = node_key m" and r: "map node_key ns = map node_key ms'"
    by auto
  from k have "hash (node n) = hash (node m)" "ftc_cmap_node_compare n q = ftc_cmap_node_compare m q"
    by (auto simp: node_key_def compare_simp)
  with Cons.IH [OF r] ms show ?case by simp
qed

lemma find_prefix_keys:
  assumes "FTC_Cache_find h q ns = Some p"
    and "length ns \<le> length ms"
    and "\<forall>k<length ns. node_key (ms ! k) = node_key (ns ! k)"
  shows "FTC_Cache_find h q ms = Some p"
proof -
  have ms: "ms = take (length ns) ms @ drop (length ns) ms" by simp
  have "map node_key (take (length ns) ms) = map node_key ns"
    using assms(2,3) by (auto simp: list_eq_iff_nth_eq)
  then have "FTC_Cache_find h q (take (length ns) ms) = Some p"
    using assms(1) find_cong_keys by metis
  then have "FTC_Cache_find h q (take (length ns) ms @ drop (length ns) ms) = Some p"
    by (rule find_append_Some)
  then show ?thesis by simp
qed

lemma find_update_indices:
  "p < length ns \<Longrightarrow>
   FTC_Cache_find h q (ns[p := (ns ! p)\<lparr> indices := f \<rparr>]) = FTC_Cache_find h q ns"
  by (rule find_cong_keys) (simp add: list_eq_iff_nth_eq nth_list_update node_key_def)

lemma LOOKUP_CMP_found:
  "FTC_Cache_find h q (nodes c) = Some p \<Longrightarrow> FTC_CACHE_LOOKUP_CMP c h q = Inr (p, c)"
  by (simp add: FTC_CACHE_LOOKUP_CMP_def)

lemma LOOKUP_CMP_Inr:
  assumes "FTC_CACHE_LOOKUP_CMP c h q = Inr (p, c1)"
  shows "FTC_Cache_find h q (nodes c1) = Some p"
    and "faces c1 = faces c" and "calls c1 = calls c" and "memory c1 = memory c"
    and "length (nodes c) \<le> length (nodes c1)"
    and "\<forall>k<length (nodes c). nodes c1 ! k = nodes c ! k"
    and "FTC_Cache_find h q (nodes c) = None \<longrightarrow>
           (\<forall>i<128. indices (nodes c1 ! p) i = FTC_CMAP_UNKNOWN)"
    and "FTC_Cache_find h q (nodes c) = Some p \<and> c1 = c
         \<or> FTC_Cache_find h q (nodes c) = None \<and> memory c \<noteq> None"
proof -
  have "FTC_Cache_find h q (nodes c1) = Some p
      \<and> faces c1 = faces c \<and> calls c1 = calls c \<and> memory c1 = memory c
      \<and> length (nodes c) \<le> length (nodes c1)
      \<and> (\<forall>k<length (nodes c). nodes c1 ! k = nodes c ! k)
      \<and> (FTC_Cache_find h q (nodes c) = None \<longrightarrow>
           (\<forall>i<128. indices (nodes c1 ! p) i = FTC_CMAP_UNKNOWN))
      \<and> (FTC_Cache_find h q (nodes c) = Some p \<and> c1 = c
         \<or> FTC_Cache_find h q (nodes c) = None \<and> memory c \<noteq> None)" (is ?all)
  proof (cases "FTC_Cache_find h q (nodes c)")
    case (Some p')
    with assms show ?thesis by (simp add: FTC_CACHE_LOOKUP_CMP_def)
  next
    case None
    with assms obtain nd where nd: "ftc_cmap_node_new q c = Inr nd"
      and p: "p = length (nodes c)"
      and c1: "c1 = c\<lparr> nodes := nodes c @ [nd\<lparr> node := \<lparr> hash = h \<rparr> \<rparr>] \<rparr>"
      by (auto simp: FTC_CACHE_LOOKUP_CMP_def split: sum.splits)
    from node_new_Inr [OF nd]
    have f: "q_char_code q - first nd < 128" and i: "\<forall>i<128. indices nd i = 0xFFFF"
      by blast+
    from nd have k: "face_id nd = q_face_id q" "cmap_index nd = q_cmap_index q" "memory c \<noteq> None"
      by (auto simp: ftc_cmap_node_new_def split: option.splits)
    have m: "ftc_cmap_node_compare (nd\<lparr> node := \<lparr> hash = h \<rparr> \<rparr>) q"
      using f k by (simp add: compare_simp)
    have "FTC_Cache_find h q (nodes c1) = Some p"
      using None m by (simp add: c1 p find_append_None)
    then show ?thesis using None i k
      by (simp add: c1 p nth_append FTC_CMAP_UNKNOWN_def)
  qed
  then show "FTC_Cache_find h q (nodes c1) = Some p"
    and "faces c1 = faces c" and "calls c1 = calls c" and "memory c1 = memory c"
    and "length (nodes c) \<le> length (nodes c1)"
    and "\<forall>k<length (nodes c). nodes c1 ! k = nodes c ! k"
    and "FTC_Cache_find h q (nodes c) = None \<longrightarrow>
           (\<forall>i<128. indices (nodes c1 ! p) i = FTC_CMAP_UNKNOWN)"
    and "FTC_Cache_find h q (nodes c) = Some p \<and> c1 = c
         \<or> FTC_Cache_find h q (nodes c) = None \<and> memory c \<noteq> None"
    by blast+
qed

text \<open>
  The node pointer that find-or-insert returns is valid: the lookup reads
  \<open>nodes cache1 ! p\<close> in range.
\<close>

lemma LOOKUP_CMP_valid:
  assumes "FTC_CACHE_LOOKUP_CMP c h q = Inr (p, c1)"
  shows "p < length (nodes c1)"
  using find_Some [OF LOOKUP_CMP_Inr(1) [OF assms]] by simp

lemma LOOKUP_CMP_new:
  assumes "FTC_CACHE_LOOKUP_CMP c h q = Inr (p, c1)"
  shows "length (nodes c1) \<le> Suc (length (nodes c))
       \<and> (length (nodes c) < length (nodes c1) \<longrightarrow> p = length (nodes c))"
proof (cases "FTC_Cache_find h q (nodes c)")
  case (Some p')
  with assms show ?thesis by (simp add: FTC_CACHE_LOOKUP_CMP_def)
next
  case None
  with assms obtain nd where "p = length (nodes c)"
    and "c1 = c\<lparr> nodes := nodes c @ [nd\<lparr> node := \<lparr> hash = h \<rparr> \<rparr>] \<rparr>"
    by (auto simp: FTC_CACHE_LOOKUP_CMP_def split: sum.splits)
  then show ?thesis by simp
qed

subsection \<open>The lookup, path by path\<close>

lemma charmap_restore:
  "faces c fid = Some f \<Longrightarrow>
   (faces c)(fid := Some (f\<lparr> charmap := charmap f \<rparr>)) = faces c"
  by (simp add: fun_upd_idem)

lemma Lookup_unfold:
  assumes cmp: "FTC_CACHE_LOOKUP_CMP c (FTC_CMAP_HASH fh fid (norm_cmap_index idx) code)
                  (cmap_query fid idx code) = Inr (p, c1)"
    and nd: "nd = nodes c1 ! p" and off: "off = unat (code - first nd)"
  shows "FTC_CMapCache_Lookup fh (Some c) fid idx code =
     (if indices nd off = FTC_CMAP_UNKNOWN then
        (case faces c fid of
           None \<Rightarrow> (0, Some (c1\<lparr> calls := calls c @ [LookupFace fid] \<rparr>))
         | Some f \<Rightarrow>
            if norm_cmap_index idx < num_charmaps f then
              (let tgt = charmaps f (unat (norm_cmap_index idx));
                   sw = (charmap f \<noteq> tgt \<and> \<not> idx <s 0);
                   g = char_index f (if sw then tgt else charmap f) code
               in (g, Some (c1\<lparr> calls := calls c @ LookupFace fid #
                                    (if sw then [SetCharmap fid tgt] else []) @
                                    GetCharIndex fid code #
                                    (if sw then [SetCharmap fid (charmap f)] else []),
                              nodes := (nodes c1)[p := nd\<lparr> indices := (indices nd)(off := ucast g) \<rparr>] \<rparr>)))
            else (0, Some (c1\<lparr> calls := calls c @ [LookupFace fid],
                               nodes := (nodes c1)[p := nd\<lparr> indices := (indices nd)(off := 0) \<rparr>] \<rparr>)))
      else (ucast (indices nd off), Some c1))"
proof -
  note defs = FTC_CMapCache_Lookup_def norm_cmap_index_def
  from LOOKUP_CMP_Inr [OF cmp]
  have fnd: "FTC_Cache_find (FTC_CMAP_HASH fh fid (norm_cmap_index idx) code)
               (cmap_query fid idx code) (nodes c1) = Some p"
    and fc: "faces c1 = faces c" and cc: "calls c1 = calls c"
    by simp_all
  from find_Some [OF fnd] have m: "ftc_cmap_node_compare nd (cmap_query fid idx code)"
    by (simp add: nd)
  then have fid: "face_id nd = fid" and o: "code - first nd < 128"
    by (simp_all add: compare_simp cmap_query_def)
  from o have o': "\<not> FTC_CMAP_INDICES_MAX \<le> code - first nd"
    by (simp add: FTC_CMAP_INDICES_MAX_def not_le)
  have cmp': "FTC_CACHE_LOOKUP_CMP c (FTC_CMAP_HASH fh fid (norm_cmap_index idx) code)
       \<lparr>q_face_id = fid, q_cmap_index = norm_cmap_index idx, q_char_code = code\<rparr> = Inr (p, c1)"
    using cmp by (simp add: cmap_query_def)
  show ?thesis
  proof (cases "indices nd off = FTC_CMAP_UNKNOWN")
    case False
    then show ?thesis
      using cmp' o' nd off
      by (cases "idx <s 0") (simp_all add: defs Let_def ucast_16_32_inj)
  next
    case unk: True
    show ?thesis
    proof (cases "faces c fid")
      case None
      then show ?thesis
        using cmp' o' nd off unk fid fc cc
        by (cases "idx <s 0") (simp_all add: defs Let_def ucast_16_32_inj FTC_Manager_LookupFace_def)
    next
      case (Some f)
      show ?thesis
      proof (cases "norm_cmap_index idx < num_charmaps f")
        case False
        then show ?thesis
          using cmp' o' nd off unk fid fc cc Some
          by (cases "idx <s 0") (simp_all add: defs Let_def ucast_16_32_inj FTC_Manager_LookupFace_def)
      next
        case True
        show ?thesis
        proof (cases "charmap f \<noteq> charmaps f (unat (norm_cmap_index idx)) \<and> \<not> idx <s 0")
          case sw: True
          then show ?thesis
            using cmp' o' nd off unk fid fc cc Some True charmap_restore [of c fid f]
            by (cases "idx <s 0") (simp_all add: defs Let_def ucast_16_32_inj FTC_Manager_LookupFace_def
                  FT_TS_Set_Charmap_def FT_TS_Get_Char_Index_def)
        next
          case nsw: False
          then show ?thesis
            using cmp' o' nd off unk fid fc cc Some True
            by (cases "idx <s 0") (simp_all add: defs Let_def ucast_16_32_inj FTC_Manager_LookupFace_def
                  FT_TS_Set_Charmap_def FT_TS_Get_Char_Index_def)
        qed
      qed
    qed
  qed
qed

lemma Lookup_Inl:
  assumes "FTC_CACHE_LOOKUP_CMP c (FTC_CMAP_HASH fh fid (norm_cmap_index idx) code)
                  (cmap_query fid idx code) = Inl e"
  shows "FTC_CMapCache_Lookup fh (Some c) fid idx code = (0, Some c)"
  using assms
  by (simp add: FTC_CMapCache_Lookup_def norm_cmap_index_def cmap_query_def)

lemma cache_le_refl: "cache_le c c"
  by (simp add: cache_le_def)

lemma cache_le_trans: "cache_le a b \<Longrightarrow> cache_le b c \<Longrightarrow> cache_le a c"
  unfolding cache_le_def
  by (metis (no_types, lifting) le_trans less_le_trans)

lemma cache_le_entry:
  assumes le: "cache_le c c'"
    and e: "cmap_entry fh c fid idx code = Some v" and v: "v \<noteq> FTC_CMAP_UNKNOWN"
  shows "cmap_entry fh c' fid idx code = Some v"
proof -
  from e obtain p where p: "cmap_node_of fh c fid idx code = Some p"
    and ev: "indices (nodes c ! p) (unat (code - first (nodes c ! p))) = v"
    by (auto simp: cmap_entry_def)
  from p have pl: "p < length (nodes c)"
    using find_Some [of _ _ "nodes c" p] by (simp add: cmap_node_of_def)
  from le have l: "length (nodes c) \<le> length (nodes c')"
    and k: "\<forall>k<length (nodes c). node_key (nodes c' ! k) = node_key (nodes c ! k)"
    by (simp_all add: cache_le_def)
  have p': "cmap_node_of fh c' fid idx code = Some p"
    using p find_prefix_keys [OF _ l k] by (simp add: cmap_node_of_def)
  from k pl have f: "first (nodes c' ! p) = first (nodes c ! p)"
    by (auto simp: node_key_def)
  from le pl ev v have "indices (nodes c' ! p) (unat (code - first (nodes c ! p))) = v"
    by (auto simp: cache_le_def)
  with p' f show ?thesis by (simp add: cmap_entry_def)
qed

lemma LOOKUP_CMP_cache_le:
  assumes "FTC_CACHE_LOOKUP_CMP c h q = Inr (p, c1)"
  shows "cache_le c c1"
  using LOOKUP_CMP_Inr(5,6) [OF assms] by (simp add: cache_le_def)

lemma cache_le_store:
  assumes p: "p < length (nodes c1)" and u: "indices (nodes c1 ! p) off = FTC_CMAP_UNKNOWN"
    and n: "nodes c' = (nodes c1)[p := (nodes c1 ! p)\<lparr> indices := (indices (nodes c1 ! p))(off := x) \<rparr>]"
  shows "cache_le c1 c'"
  using p u by (auto simp: cache_le_def n nth_list_update node_key_def)

lemma Lookup_Inr:
  assumes cmp: "FTC_CACHE_LOOKUP_CMP c (FTC_CMAP_HASH fh fid (norm_cmap_index idx) code)
                  (cmap_query fid idx code) = Inr (p, c1)"
    and l: "FTC_CMapCache_Lookup fh (Some c) fid idx code = (g, cc)"
  shows "\<exists>c' new. cc = Some c' \<and> cache_le c1 c' \<and> length (nodes c') = length (nodes c1)
            \<and> faces c' = faces c \<and> memory c' = memory c
            \<and> calls c' = calls c @ new
            \<and> (idx <s 0 \<longrightarrow> (\<forall>a b. SetCharmap a b \<notin> set new))"
proof -
  note u = Lookup_unfold [OF cmp refl refl]
  note i = LOOKUP_CMP_Inr [OF cmp]
  from find_Some [OF i(1)] have pl: "p < length (nodes c1)" by simp
  let ?nd = "nodes c1 ! p"
  let ?off = "unat (code - first ?nd)"
  show ?thesis
  proof (cases "indices ?nd ?off = FTC_CMAP_UNKNOWN")
    case False
    with u l have "cc = Some c1" by simp
    with i show ?thesis by (simp add: cache_le_refl)
  next
    case unk: True
    have st: "cache_le c1 c' \<and> length (nodes c') = length (nodes c1)"
      if "nodes c' = (nodes c1)[p := ?nd\<lparr> indices := (indices ?nd)(?off := x) \<rparr>]"
      for c' x
      using cache_le_store [OF pl unk that] that by simp
    show ?thesis
    proof (cases "faces c fid")
      case None
      with u unk l have cc: "cc = Some (c1\<lparr> calls := calls c @ [LookupFace fid] \<rparr>)"
        by simp
      have "cache_le c1 (c1\<lparr> calls := calls c @ [LookupFace fid] \<rparr>)"
        by (simp add: cache_le_def)
      with cc i show ?thesis by simp
    next
      case (Some f)
      show ?thesis
      proof (cases "norm_cmap_index idx < num_charmaps f")
        case False
        with u unk l Some
        have cc: "cc = Some (c1\<lparr> calls := calls c @ [LookupFace fid],
                    nodes := (nodes c1)[p := ?nd\<lparr> indices := (indices ?nd)(?off := 0) \<rparr>] \<rparr>)"
          by simp
        let ?c' = "c1\<lparr> calls := calls c @ [LookupFace fid],
                    nodes := (nodes c1)[p := ?nd\<lparr> indices := (indices ?nd)(?off := 0) \<rparr>] \<rparr>"
        have "cache_le c1 ?c' \<and> length (nodes ?c') = length (nodes c1)"
          by (rule st [of ?c' 0]) simp
        then show ?thesis using cc i by simp
      next
        case True
        with u unk l Some
        obtain c' new x where cc: "cc = Some c'"
          and n: "nodes c' = (nodes c1)[p := ?nd\<lparr> indices := (indices ?nd)(?off := x) \<rparr>]"
          and r: "faces c' = faces c1" "memory c' = memory c1" "calls c' = calls c @ new"
          and s: "idx <s 0 \<longrightarrow> (\<forall>a b. SetCharmap a b \<notin> set new)"
          by (auto simp: Let_def)
        from st [OF n] have "cache_le c1 c'" "length (nodes c') = length (nodes c1)"
          by simp_all
        then show ?thesis using cc r s i by simp
      qed
    qed
  qed
qed

lemma Lookup_Some:
  assumes "FTC_CMapCache_Lookup fh (Some c) fid idx code = (g, cc)"
  shows "\<exists>c' new. cc = Some c' \<and> cache_le c c' \<and> faces c' = faces c \<and> memory c' = memory c
            \<and> calls c' = calls c @ new
            \<and> (idx <s 0 \<longrightarrow> (\<forall>a b. SetCharmap a b \<notin> set new))"
proof (cases "FTC_CACHE_LOOKUP_CMP c (FTC_CMAP_HASH fh fid (norm_cmap_index idx) code)
                  (cmap_query fid idx code)")
  case (Inl e)
  from Lookup_Inl [OF this] assms have "cc = Some c" by simp
  then show ?thesis by (auto simp: cache_le_refl)
next
  case (Inr r)
  then obtain p c1 where cmp: "FTC_CACHE_LOOKUP_CMP c (FTC_CMAP_HASH fh fid (norm_cmap_index idx) code)
                  (cmap_query fid idx code) = Inr (p, c1)"
    by (cases r) auto
  from Lookup_Inr [OF cmp assms] obtain c' new where r: "cc = Some c'" "cache_le c1 c'"
    "faces c' = faces c" "memory c' = memory c" "calls c' = calls c @ new"
    "idx <s 0 \<longrightarrow> (\<forall>a b. SetCharmap a b \<notin> set new)"
    by blast
  have "cache_le c c'" using LOOKUP_CMP_cache_le [OF cmp] r(2) by (rule cache_le_trans)
  with r show ?thesis by blast
qed

lemma Lookup_new_nodes:
  assumes l: "FTC_CMapCache_Lookup fh (Some c) fid idx code = (g, Some c')"
    and k: "k < length (nodes c')" "length (nodes c) \<le> k"
  shows "cmap_index (nodes c' ! k) = norm_cmap_index idx
       \<and> face_id (nodes c' ! k) = fid
       \<and> hash (node (nodes c' ! k)) = FTC_CMAP_HASH fh fid (norm_cmap_index idx) code"
proof (cases "FTC_CACHE_LOOKUP_CMP c (FTC_CMAP_HASH fh fid (norm_cmap_index idx) code)
                  (cmap_query fid idx code)")
  case (Inl e)
  from Lookup_Inl [OF this] l k show ?thesis by simp
next
  case (Inr r)
  then obtain p c1 where cmp: "FTC_CACHE_LOOKUP_CMP c (FTC_CMAP_HASH fh fid (norm_cmap_index idx) code)
                  (cmap_query fid idx code) = Inr (p, c1)"
    by (cases r) auto
  from Lookup_Inr [OF cmp l] have le: "cache_le c1 c'" and len: "length (nodes c') = length (nodes c1)"
    by auto
  from LOOKUP_CMP_new [OF cmp] k len have p: "p = k" by auto
  from find_Some [OF LOOKUP_CMP_Inr(1) [OF cmp]]
  have "hash (node (nodes c1 ! p)) = FTC_CMAP_HASH fh fid (norm_cmap_index idx) code"
    and "face_id (nodes c1 ! p) = fid" and "cmap_index (nodes c1 ! p) = norm_cmap_index idx"
    by (simp_all add: compare_simp cmap_query_def)
  moreover from le k len have "node_key (nodes c' ! k) = node_key (nodes c1 ! k)"
    by (simp add: cache_le_def)
  ultimately show ?thesis by (simp add: p node_key_def)
qed

lemma cache_step_le: "cache_step fh c c' \<Longrightarrow> cache_le c c'"
proof (induction rule: cache_step.induct)
  case (lookup_step cache fid idx char_code g cache')
  from Lookup_Some [OF this] show ?case by auto
next
  case (world_step cache fs m)
  show ?case by (simp add: cache_le_def)
qed

lemma cache_steps_le: "(cache_step fh)\<^sup>*\<^sup>* c c' \<Longrightarrow> cache_le c c'"
  by (induction rule: rtranclp_induct) (auto intro: cache_le_refl cache_le_trans cache_step_le)

lemma cmap_node_of_cmp:
  assumes "cmap_node_of fh c fid idx code = Some p"
  shows "FTC_CACHE_LOOKUP_CMP c (FTC_CMAP_HASH fh fid (norm_cmap_index idx) code)
                  (cmap_query fid idx code) = Inr (p, c)"
  using assms by (simp add: cmap_node_of_def LOOKUP_CMP_found)

lemma Lookup_hit:
  assumes e: "cmap_entry fh c fid idx code = Some v" and v: "v \<noteq> FTC_CMAP_UNKNOWN"
  shows "FTC_CMapCache_Lookup fh (Some c) fid idx code = (ucast v, Some c)"
proof -
  from e obtain p where p: "cmap_node_of fh c fid idx code = Some p"
    and ev: "indices (nodes c ! p) (unat (code - first (nodes c ! p))) = v"
    by (auto simp: cmap_entry_def)
  from Lookup_unfold [OF cmap_node_of_cmp [OF p] refl refl] ev v
  show ?thesis by simp
qed

lemma unresolved_cmp:
  assumes "unresolved fh c fid idx code"
  shows "\<exists>p c1. FTC_CACHE_LOOKUP_CMP c (FTC_CMAP_HASH fh fid (norm_cmap_index idx) code)
                  (cmap_query fid idx code) = Inr (p, c1)
               \<and> indices (nodes c1 ! p) (unat (code - first (nodes c1 ! p))) = FTC_CMAP_UNKNOWN"
proof (cases "cmap_node_of fh c fid idx code")
  case (Some p)
  with assms have "indices (nodes c ! p) (unat (code - first (nodes c ! p))) = FTC_CMAP_UNKNOWN"
    by (simp add: unresolved_def cmap_entry_def)
  with cmap_node_of_cmp [OF Some] show ?thesis by blast
next
  case None
  with assms obtain raw where raw: "memory c = Some raw"
    by (auto simp: unresolved_def cmap_entry_def)
  let ?h = "FTC_CMAP_HASH fh fid (norm_cmap_index idx) code"
  let ?q = "cmap_query fid idx code"
  from None have fn: "FTC_Cache_find ?h ?q (nodes c) = None" by (simp add: cmap_node_of_def)
  with raw obtain p c1 where cmp: "FTC_CACHE_LOOKUP_CMP c ?h ?q = Inr (p, c1)"
    by (simp add: FTC_CACHE_LOOKUP_CMP_def ftc_cmap_node_new_def)
  note i = LOOKUP_CMP_Inr [OF cmp]
  from find_Some [OF i(1)] have "q_char_code ?q - first (nodes c1 ! p) < 128"
    by (simp add: compare_simp)
  then have "code - first (nodes c1 ! p) < 128" by (simp add: cmap_query_def)
  then have "unat (code - first (nodes c1 ! p)) < 128" by (simp add: word_less_nat_alt)
  with i(7) fn have "indices (nodes c1 ! p) (unat (code - first (nodes c1 ! p))) = FTC_CMAP_UNKNOWN"
    by simp
  with cmp show ?thesis by blast
qed

lemma store_entry:
  assumes cmp: "FTC_CACHE_LOOKUP_CMP c (FTC_CMAP_HASH fh fid (norm_cmap_index idx) code)
                  (cmap_query fid idx code) = Inr (p, c1)"
    and n: "nodes c' = (nodes c1)[p := (nodes c1 ! p)\<lparr> indices :=
               (indices (nodes c1 ! p))(unat (code - first (nodes c1 ! p)) := x) \<rparr>]"
  shows "cmap_entry fh c' fid idx code = Some x"
proof -
  note i = LOOKUP_CMP_Inr [OF cmp]
  from find_Some [OF i(1)] have pl: "p < length (nodes c1)" by simp
  have "cmap_node_of fh c' fid idx code = Some p"
    using i(1) pl by (simp add: cmap_node_of_def n find_update_indices)
  then show ?thesis using pl by (simp add: cmap_entry_def n)
qed

lemma keep_entry:
  assumes cmp: "FTC_CACHE_LOOKUP_CMP c (FTC_CMAP_HASH fh fid (norm_cmap_index idx) code)
                  (cmap_query fid idx code) = Inr (p, c1)"
    and n: "nodes c' = nodes c1"
  shows "cmap_entry fh c' fid idx code =
           Some (indices (nodes c1 ! p) (unat (code - first (nodes c1 ! p))))"
  using LOOKUP_CMP_Inr(1) [OF cmp] by (simp add: cmap_entry_def cmap_node_of_def n)

lemma Lookup_face_fails:
  assumes u: "unresolved fh c fid idx code" and f: "faces c fid = None"
  shows "\<exists>c'. FTC_CMapCache_Lookup fh (Some c) fid idx code = (0, Some c')
            \<and> calls c' = calls c @ [LookupFace fid]
            \<and> cmap_entry fh c' fid idx code = Some FTC_CMAP_UNKNOWN
            \<and> (\<forall>k<length (nodes c). nodes c' ! k = nodes c ! k)"
proof -
  from unresolved_cmp [OF u] obtain p c1 where
    cmp: "FTC_CACHE_LOOKUP_CMP c (FTC_CMAP_HASH fh fid (norm_cmap_index idx) code)
                  (cmap_query fid idx code) = Inr (p, c1)"
    and unk: "indices (nodes c1 ! p) (unat (code - first (nodes c1 ! p))) = FTC_CMAP_UNKNOWN"
    by blast
  let ?c' = "c1\<lparr> calls := calls c @ [LookupFace fid] \<rparr>"
  from Lookup_unfold [OF cmp refl refl] unk f
  have "FTC_CMapCache_Lookup fh (Some c) fid idx code = (0, Some ?c')" by simp
  moreover have "cmap_entry fh ?c' fid idx code = Some FTC_CMAP_UNKNOWN"
    using keep_entry [OF cmp, of ?c'] unk by simp
  moreover have "\<forall>k<length (nodes c). nodes ?c' ! k = nodes c ! k"
    using LOOKUP_CMP_Inr(6) [OF cmp] by simp
  ultimately show ?thesis by (intro exI [of _ ?c']) simp
qed

lemma Lookup_out_of_range:
  assumes u: "unresolved fh c fid idx code" and f: "faces c fid = Some f"
    and r: "\<not> norm_cmap_index idx < num_charmaps f"
  shows "\<exists>c'. FTC_CMapCache_Lookup fh (Some c) fid idx code = (0, Some c')
            \<and> calls c' = calls c @ [LookupFace fid]
            \<and> cmap_entry fh c' fid idx code = Some 0"
proof -
  from unresolved_cmp [OF u] obtain p c1 where
    cmp: "FTC_CACHE_LOOKUP_CMP c (FTC_CMAP_HASH fh fid (norm_cmap_index idx) code)
                  (cmap_query fid idx code) = Inr (p, c1)"
    and unk: "indices (nodes c1 ! p) (unat (code - first (nodes c1 ! p))) = FTC_CMAP_UNKNOWN"
    by blast
  let ?nd = "nodes c1 ! p"
  let ?c' = "c1\<lparr> calls := calls c @ [LookupFace fid],
                 nodes := (nodes c1)[p := ?nd\<lparr> indices := (indices ?nd)(unat (code - first ?nd) := 0) \<rparr>] \<rparr>"
  from Lookup_unfold [OF cmp refl refl] unk f r
  have "FTC_CMapCache_Lookup fh (Some c) fid idx code = (0, Some ?c')" by simp
  moreover have "cmap_entry fh ?c' fid idx code = Some 0"
    by (rule store_entry [OF cmp]) simp
  ultimately show ?thesis by (intro exI [of _ ?c']) simp
qed

lemma Lookup_in_range:
  assumes u: "unresolved fh c fid idx code" and f: "faces c fid = Some f"
    and r: "norm_cmap_index idx < num_charmaps f"
    and tgt: "tgt = charmaps f (unat (norm_cmap_index idx))"
    and sw: "sw \<longleftrightarrow> charmap f \<noteq> tgt \<and> \<not> idx <s 0"
    and g: "g = char_index f (if sw then tgt else charmap f) code"
  shows "\<exists>c'. FTC_CMapCache_Lookup fh (Some c) fid idx code = (g, Some c')
            \<and> calls c' = calls c @ LookupFace fid # (if sw then [SetCharmap fid tgt] else []) @
                            GetCharIndex fid code #
                            (if sw then [SetCharmap fid (charmap f)] else [])
            \<and> cmap_entry fh c' fid idx code = Some (ucast g)
            \<and> faces c' = faces c \<and> memory c' = memory c"
proof -
  from unresolved_cmp [OF u] obtain p c1 where
    cmp: "FTC_CACHE_LOOKUP_CMP c (FTC_CMAP_HASH fh fid (norm_cmap_index idx) code)
                  (cmap_query fid idx code) = Inr (p, c1)"
    and unk: "indices (nodes c1 ! p) (unat (code - first (nodes c1 ! p))) = FTC_CMAP_UNKNOWN"
    by blast
  let ?nd = "nodes c1 ! p"
  let ?c' = "c1\<lparr> calls := calls c @ LookupFace fid # (if sw then [SetCharmap fid tgt] else []) @
                            GetCharIndex fid code #
                            (if sw then [SetCharmap fid (charmap f)] else []),
                 nodes := (nodes c1)[p := ?nd\<lparr> indices := (indices ?nd)(unat (code - first ?nd) := ucast g) \<rparr>] \<rparr>"
  from Lookup_unfold [OF cmp refl refl] unk f r tgt sw g
  have "FTC_CMapCache_Lookup fh (Some c) fid idx code = (g, Some ?c')"
    by (simp add: Let_def)
  moreover have "cmap_entry fh ?c' fid idx code = Some (ucast g)"
    by (rule store_entry [OF cmp]) simp
  moreover have "faces ?c' = faces c" "memory ?c' = memory c"
    using LOOKUP_CMP_Inr(2,4) [OF cmp] by simp_all
  ultimately show ?thesis by (intro exI [of _ ?c']) simp
qed

lemma Lookup_attempts:
  assumes u: "unresolved fh c fid idx code"
  shows "\<exists>g c' rest. FTC_CMapCache_Lookup fh (Some c) fid idx code = (g, Some c')
            \<and> calls c' = calls c @ LookupFace fid # rest"
proof (cases "faces c fid")
  case None
  from Lookup_face_fails [OF u None] show ?thesis by auto
next
  case (Some f)
  show ?thesis
  proof (cases "norm_cmap_index idx < num_charmaps f")
    case True
    from Lookup_in_range [OF u Some True refl refl refl] show ?thesis by blast
  next
    case False
    from Lookup_out_of_range [OF u Some False] show ?thesis by auto
  qed
qed

lemma Lookup_entry_after:
  assumes l: "FTC_CMapCache_Lookup fh (Some c) fid idx code = (g, Some c1)"
    and e: "cmap_entry fh c1 fid idx code = Some v" and v: "v \<noteq> FTC_CMAP_UNKNOWN"
  shows "v = ucast g"
proof (cases "FTC_CACHE_LOOKUP_CMP c (FTC_CMAP_HASH fh fid (norm_cmap_index idx) code)
                  (cmap_query fid idx code)")
  case (Inl err)
  then have "FTC_CMapCache_Lookup fh (Some c) fid idx code = (0, Some c)"
    by (simp add: FTC_CMapCache_Lookup_def norm_cmap_index_def cmap_query_def)
  with l have c1: "c1 = c" by simp
  from e c1 obtain p where "cmap_node_of fh c fid idx code = Some p"
    by (auto simp: cmap_entry_def)
  from cmap_node_of_cmp [OF this] Inl show ?thesis by simp
next
  case (Inr r)
  then obtain p c0 where cmp: "FTC_CACHE_LOOKUP_CMP c (FTC_CMAP_HASH fh fid (norm_cmap_index idx) code)
                  (cmap_query fid idx code) = Inr (p, c0)"
    by (cases r) auto
  note u = Lookup_unfold [OF cmp refl refl]
  let ?nd = "nodes c0 ! p"
  let ?off = "unat (code - first ?nd)"
  show ?thesis
  proof (cases "indices ?nd ?off = FTC_CMAP_UNKNOWN")
    case False
    with u l have "c1 = c0" "g = ucast (indices ?nd ?off)" by simp_all
    with keep_entry [OF cmp, of c1] e show ?thesis by (simp add: ucast_16_32_id)
  next
    case unk: True
    show ?thesis
    proof (cases "faces c fid")
      case None
      with u unk l have "nodes c1 = nodes c0" by auto
      with keep_entry [OF cmp, of c1] e unk v show ?thesis by simp
    next
      case (Some f)
      show ?thesis
      proof (cases "norm_cmap_index idx < num_charmaps f")
        case False
        with u unk l Some have "g = 0"
          and "nodes c1 = (nodes c0)[p := ?nd\<lparr> indices := (indices ?nd)(?off := 0) \<rparr>]"
          by auto
        with store_entry [OF cmp, of c1 0] e show ?thesis by simp
      next
        case True
        with u unk l Some
        have "nodes c1 = (nodes c0)[p := ?nd\<lparr> indices := (indices ?nd)(?off := ucast g) \<rparr>]"
          by (auto simp: Let_def)
        with store_entry [OF cmp, of c1 "ucast g"] e show ?thesis by simp
      qed
    qed
  qed
qed

lemma entry_persists:
  assumes "cmap_entry fh c1 fid idx code = Some v" "v \<noteq> FTC_CMAP_UNKNOWN"
    and "(cache_step fh)\<^sup>*\<^sup>* c1 c2"
  shows "cmap_entry fh c2 fid idx code = Some v"
  using cache_le_entry [OF cache_steps_le [OF assms(3)] assms(1,2)] .

lemma neg_index_entry:
  "idx <s 0 \<Longrightarrow> cmap_entry fh c fid idx code = cmap_entry fh c fid 0 code"
  by (simp add: cmap_entry_def cmap_node_of_def cmap_query_def norm_cmap_index_def)

lemma neg_index_unresolved:
  "idx <s 0 \<Longrightarrow> unresolved fh c fid idx code = unresolved fh c fid 0 code"
  by (simp add: unresolved_def neg_index_entry)

lemmas eval_defs = FTC_CMapCache_Lookup_def FTC_CACHE_LOOKUP_CMP_def ftc_cmap_node_new_def
        FTC_Manager_LookupFace_def FT_TS_Set_Charmap_def FT_TS_Get_Char_Index_def
        ftc_cmap_node_compare_def FTC_CMAP_INDICES_MAX_def UNKNOWN_eq
        demo_cache_def demo_face_def demo_raw_def demo_cache_after_def Let_def fill_indices_eq
        unresolved_def cmap_entry_def cmap_node_of_def cmap_query_def norm_cmap_index_def
        word_sless_alt

section \<open>The claims\<close>

subsection \<open>C1: repeated lookups\<close>

text \<open>
  C1, as it is stated, does not hold: a lookup that resolves an entry returns the
  glyph index as the font gave it, but stores it cut to 16 bits, and later lookups
  return what is stored.  In the small cache the font gives 65537 for the code 66:
  the first lookup returns 65537 and stores 1, which is not the sentinel, and the
  second lookup returns 1.
\<close>

theorem lookup_idempotent_counterexample:
  "FTC_CMapCache_Lookup demo_hash (Some demo_cache) 1 0 66 =
     (0x10001, Some (demo_cache_after 66 1
        [LookupFace 1, SetCharmap 1 10, GetCharIndex 1 66, SetCharmap 1 11]))
   \<and> cmap_entry demo_hash (demo_cache_after 66 1
        [LookupFace 1, SetCharmap 1 10, GetCharIndex 1 66, SetCharmap 1 11]) 1 0 66 = Some 1
   \<and> (1 :: FT_TS_UInt16) \<noteq> FTC_CMAP_UNKNOWN
   \<and> FTC_CMapCache_Lookup demo_hash (Some (demo_cache_after 66 1
        [LookupFace 1, SetCharmap 1 10, GetCharIndex 1 66, SetCharmap 1 11])) 1 0 66 =
     (1, Some (demo_cache_after 66 1
        [LookupFace 1, SetCharmap 1 10, GetCharIndex 1 66, SetCharmap 1 11]))
   \<and> (0x10001 :: FT_TS_UInt) \<noteq> 1"
  by (simp add: eval_defs wide_numeral_16)

text \<open>
  C1, amended.  Let a lookup leave a value other than the sentinel in the entry of
  its key.  That value is the glyph index the lookup returned, cut to 16 bits.
  From then on, whatever other lookups and changes of the outside world come in
  between, every lookup with the same arguments returns the first result modulo
  \<open>2 ^ 16\<close> (the first result itself when that was below 65536) and leaves
  the cache as it is, log included: neither the face resolver nor the font is
  called.  No entry of any node that holds a glyph index is ever written again.
\<close>

theorem lookup_idempotent:
  assumes first_call: "FTC_CMapCache_Lookup fh (Some c) fid idx code = (g, Some c1)"
    and stored: "cmap_entry fh c1 fid idx code = Some v" "v \<noteq> FTC_CMAP_UNKNOWN"
    and later: "(cache_step fh)\<^sup>*\<^sup>* c1 c2"
  shows "v = ucast g
       \<and> FTC_CMapCache_Lookup fh (Some c2) fid idx code = (g AND 0xFFFF, Some c2)
       \<and> (g < 0x10000 \<longrightarrow> FTC_CMapCache_Lookup fh (Some c2) fid idx code = (g, Some c2))
       \<and> (\<forall>p<length (nodes c1). \<forall>i. indices (nodes c1 ! p) i \<noteq> FTC_CMAP_UNKNOWN \<longrightarrow>
             p < length (nodes c2) \<and> indices (nodes c2 ! p) i = indices (nodes c1 ! p) i)"
proof -
  have v: "v = ucast g" using first_call stored by (rule Lookup_entry_after)
  have "cmap_entry fh c2 fid idx code = Some v" using stored later by (rule entry_persists)
  from Lookup_hit [OF this stored(2)]
  have l: "FTC_CMapCache_Lookup fh (Some c2) fid idx code = (g AND 0xFFFF, Some c2)"
    by (simp add: v ucast_16_32_and)
  have le: "cache_le c1 c2" using later by (rule cache_steps_le)
  then have n: "\<forall>p<length (nodes c1). \<forall>i. indices (nodes c1 ! p) i \<noteq> FTC_CMAP_UNKNOWN \<longrightarrow>
             p < length (nodes c2) \<and> indices (nodes c2 ! p) i = indices (nodes c1 ! p) i"
    by (auto simp: cache_le_def)
  from v l n show ?thesis by (simp add: small_index_kept)
qed

text \<open>
  The amended C1 on the small cache: the first lookup of the code 65 under charmap
  0 resolves to 36; after the face has been unloaded and memory has run out, the
  same lookup still returns 36 and changes nothing.
\<close>

theorem lookup_idempotent_witness:
  "FTC_CMapCache_Lookup demo_hash (Some demo_cache) 1 0 65 =
     (36, Some (demo_cache_after 65 36
        [LookupFace 1, SetCharmap 1 10, GetCharIndex 1 65, SetCharmap 1 11]))
   \<and> cmap_entry demo_hash (demo_cache_after 65 36
        [LookupFace 1, SetCharmap 1 10, GetCharIndex 1 65, SetCharmap 1 11]) 1 0 65 = Some 36
   \<and> (36 :: FT_TS_UInt16) \<noteq> FTC_CMAP_UNKNOWN
   \<and> (cache_step demo_hash)\<^sup>*\<^sup>*
        (demo_cache_after 65 36
           [LookupFace 1, SetCharmap 1 10, GetCharIndex 1 65, SetCharmap 1 11])
        ((demo_cache_after 65 36
           [LookupFace 1, SetCharmap 1 10, GetCharIndex 1 65, SetCharmap 1 11])
           \<lparr> faces := Map.empty, memory := None \<rparr>)
   \<and> FTC_CMapCache_Lookup demo_hash
        (Some ((demo_cache_after 65 36
           [LookupFace 1, SetCharmap 1 10, GetCharIndex 1 65, SetCharmap 1 11])
           \<lparr> faces := Map.empty, memory := None \<rparr>)) 1 0 65
       = (36, Some ((demo_cache_after 65 36
           [LookupFace 1, SetCharmap 1 10, GetCharIndex 1 65, SetCharmap 1 11])
           \<lparr> faces := Map.empty, memory := None \<rparr>))"
proof -
  let ?c1 = "demo_cache_after 65 36
        [LookupFace 1, SetCharmap 1 10, GetCharIndex 1 65, SetCharmap 1 11]"
  have h1: "FTC_CMapCache_Lookup demo_hash (Some demo_cache) 1 0 65 = (36, Some ?c1)"
    by (simp add: eval_defs)
  have h2: "cmap_entry demo_hash ?c1 1 0 65 = Some 36"
    by (simp add: eval_defs)
  have h3: "(36 :: FT_TS_UInt16) \<noteq> FTC_CMAP_UNKNOWN"
    by (simp add: FTC_CMAP_UNKNOWN_def)
  have h4: "(cache_step demo_hash)\<^sup>*\<^sup>* ?c1 (?c1\<lparr> faces := Map.empty, memory := None \<rparr>)"
    by (rule r_into_rtranclp) (rule world_step)
  from lookup_idempotent [OF h1 h2 h3 h4] h1 h2 h3 h4 show ?thesis
    by simp
qed

subsection \<open>C2: the active charmap is restored\<close>

text \<open>
  C2.  A lookup with a charmap index that is not negative, whose entry is still to
  be resolved, whose face resolves, and whose target charmap \<open>charmaps f idx\<close>
  is not the active one \<open>charmap f\<close>: the calls it makes are, in this order,
  resolving the face, setting the target charmap, asking for the glyph index, and
  setting the charmap that was active before.  The glyph index is the one under the
  target charmap, and the face table, with the active charmap of the face, is
  after the call what it was before.
\<close>

theorem active_charmap_restored:
  assumes nonneg: "\<not> idx <s 0"
    and unres: "unresolved fh c fid idx code"
    and face: "faces c fid = Some f"
    and inrange: "idx <s num_charmaps f"
    and differs: "charmaps f (unat idx) \<noteq> charmap f"
  shows "\<exists>c'. FTC_CMapCache_Lookup fh (Some c) fid idx code =
                 (char_index f (charmaps f (unat idx)) code, Some c')
            \<and> calls c' = calls c @ [LookupFace fid, SetCharmap fid (charmaps f (unat idx)),
                                     GetCharIndex fid code, SetCharmap fid (charmap f)]
            \<and> faces c' = faces c
            \<and> map_option charmap (faces c' fid) = Some (charmap f)"
proof -
  have n: "norm_cmap_index idx = idx" using nonneg by (simp add: norm_cmap_index_def)
  have r: "norm_cmap_index idx < num_charmaps f"
    using sless_imp_less [OF nonneg inrange] by (simp add: n)
  from Lookup_in_range [OF unres face r refl refl refl] nonneg differs face
  show ?thesis by (auto simp: n)
qed

text \<open>
  C2 on the small cache: charmap 11 is active, the lookup asks for charmap 0, whose
  handle is 10.
\<close>

theorem active_charmap_restored_witness:
  "\<not> (0 :: FT_TS_Int) <s 0 \<and> unresolved demo_hash demo_cache 1 0 65
   \<and> faces demo_cache 1 = Some demo_face \<and> 0 <s num_charmaps demo_face
   \<and> charmaps demo_face (unat (0 :: FT_TS_Int)) \<noteq> charmap demo_face
   \<and> (\<exists>c'. FTC_CMapCache_Lookup demo_hash (Some demo_cache) 1 0 65 = (36, Some c')
          \<and> calls c' = [LookupFace 1, SetCharmap 1 10, GetCharIndex 1 65, SetCharmap 1 11]
          \<and> faces c' = faces demo_cache
          \<and> map_option charmap (faces c' 1) = Some 11)"
proof -
  have h: "\<not> (0 :: FT_TS_Int) <s 0" "unresolved demo_hash demo_cache 1 0 65"
    "faces demo_cache 1 = Some demo_face" "0 <s num_charmaps demo_face"
    "charmaps demo_face (unat (0 :: FT_TS_Int)) \<noteq> charmap demo_face"
    by (simp_all add: unresolved_def cmap_entry_def cmap_node_of_def demo_cache_def
          demo_face_def word_sless_alt)
  from active_charmap_restored [OF h] h show ?thesis
    by (simp add: demo_cache_def demo_face_def)
qed

subsection \<open>C3: a negative charmap index\<close>

text \<open>
  C3.  A lookup with a negative charmap index never sets a charmap and leaves the
  face table as it is.  It works under the index 0: a glyph index already stored
  under the key with index 0 is returned without any change; a lookup that
  resolves stores its result under the key with index 0; and a node that the lookup
  adds to the cache has charmap index 0 and the hash computed with index 0.
\<close>

theorem no_cmap_change_mode:
  assumes neg: "idx <s 0"
    and call: "FTC_CMapCache_Lookup fh (Some c) fid idx code = (g, cc)"
  shows "\<exists>c' new. cc = Some c' \<and> calls c' = calls c @ new
            \<and> (\<forall>a b. SetCharmap a b \<notin> set new)
            \<and> faces c' = faces c
            \<and> (\<forall>v. cmap_entry fh c fid 0 code = Some v \<and> v \<noteq> FTC_CMAP_UNKNOWN \<longrightarrow>
                   g = ucast v \<and> c' = c)
            \<and> (unresolved fh c fid 0 code \<and> faces c fid \<noteq> None \<longrightarrow>
                   cmap_entry fh c' fid 0 code = Some (ucast g))
            \<and> (\<forall>k<length (nodes c'). length (nodes c) \<le> k \<longrightarrow>
                   cmap_index (nodes c' ! k) = 0
                   \<and> hash (node (nodes c' ! k)) = FTC_CMAP_HASH fh fid 0 code)"
proof -
  from Lookup_Some [OF call] neg obtain c' new where r: "cc = Some c'"
    "calls c' = calls c @ new" "\<forall>a b. SetCharmap a b \<notin> set new" "faces c' = faces c"
    by blast
  have l: "FTC_CMapCache_Lookup fh (Some c) fid idx code = (g, Some c')"
    using call r(1) by simp
  have hit: "g = ucast v \<and> c' = c"
    if "cmap_entry fh c fid 0 code = Some v" "v \<noteq> FTC_CMAP_UNKNOWN" for v
    using Lookup_hit [of fh c fid idx code v] that l by (simp add: neg_index_entry [OF neg])
  have res: "cmap_entry fh c' fid 0 code = Some (ucast g)"
    if "unresolved fh c fid 0 code" "faces c fid \<noteq> None"
  proof -
    from that obtain f where f: "faces c fid = Some f" by auto
    have u: "unresolved fh c fid idx code" using that(1) by (simp add: neg_index_unresolved [OF neg])
    have "cmap_entry fh c' fid idx code = Some (ucast g)"
    proof (cases "norm_cmap_index idx < num_charmaps f")
      case True
      from Lookup_in_range [OF u f True refl refl refl] l show ?thesis by auto
    next
      case False
      from Lookup_out_of_range [OF u f False] l show ?thesis by auto
    qed
    then show ?thesis by (simp add: neg_index_entry [OF neg])
  qed
  have new: "\<forall>k<length (nodes c'). length (nodes c) \<le> k \<longrightarrow>
                   cmap_index (nodes c' ! k) = 0
                   \<and> hash (node (nodes c' ! k)) = FTC_CMAP_HASH fh fid 0 code"
    using Lookup_new_nodes [OF l] neg by (simp add: norm_cmap_index_def)
  show ?thesis
  proof (intro exI [of _ c'] exI [of _ new] conjI)
    show "\<forall>v. cmap_entry fh c fid 0 code = Some v \<and> v \<noteq> FTC_CMAP_UNKNOWN \<longrightarrow>
                   g = ucast v \<and> c' = c"
      using hit by blast
    show "unresolved fh c fid 0 code \<and> faces c fid \<noteq> None \<longrightarrow>
                   cmap_entry fh c' fid 0 code = Some (ucast g)"
      using res by blast
  qed (use r new in simp_all)
qed

text \<open>
  C3 on the small cache: the lookup with index -1 resolves the code 65 under the
  active charmap, stores 7 under index 0, and a second lookup with index -1 finds it
  there.
\<close>

theorem no_cmap_change_mode_witness:
  "(- 1 :: FT_TS_Int) <s 0
   \<and> FTC_CMapCache_Lookup demo_hash (Some demo_cache) 1 (- 1) 65 =
       (7, Some (demo_cache_after 65 7 [LookupFace 1, GetCharIndex 1 65]))
   \<and> unresolved demo_hash demo_cache 1 0 65 \<and> faces demo_cache 1 \<noteq> None
   \<and> faces (demo_cache_after 65 7 [LookupFace 1, GetCharIndex 1 65]) = faces demo_cache
   \<and> cmap_entry demo_hash (demo_cache_after 65 7 [LookupFace 1, GetCharIndex 1 65]) 1 0 65
       = Some 7
   \<and> cmap_index (nodes (demo_cache_after 65 7 [LookupFace 1, GetCharIndex 1 65]) ! 0) = 0
   \<and> hash (node (nodes (demo_cache_after 65 7 [LookupFace 1, GetCharIndex 1 65]) ! 0))
       = FTC_CMAP_HASH demo_hash 1 0 65
   \<and> FTC_CMapCache_Lookup demo_hash
        (Some (demo_cache_after 65 7 [LookupFace 1, GetCharIndex 1 65])) 1 (- 1) 65 =
       (7, Some (demo_cache_after 65 7 [LookupFace 1, GetCharIndex 1 65]))"
proof -
  let ?c1 = "demo_cache_after 65 7 [LookupFace 1, GetCharIndex 1 65]"
  have h1: "(- 1 :: FT_TS_Int) <s 0" by (simp add: word_sless_alt)
  have h2: "FTC_CMapCache_Lookup demo_hash (Some demo_cache) 1 (- 1) 65 = (7, Some ?c1)"
    by (simp add: eval_defs)
  have h3: "unresolved demo_hash demo_cache 1 0 65 \<and> faces demo_cache 1 \<noteq> None"
    by (simp add: eval_defs)
  have h4: "FTC_CMapCache_Lookup demo_hash (Some ?c1) 1 (- 1) 65 = (7, Some ?c1)"
    by (simp add: eval_defs)
  have h5: "length (nodes ?c1) = 1 \<and> length (nodes demo_cache) = 0"
    by (simp add: demo_cache_def demo_cache_after_def)
  from no_cmap_change_mode [OF h1 h2] h3 h5
  have "faces ?c1 = faces demo_cache \<and> cmap_entry demo_hash ?c1 1 0 65 = Some 7
      \<and> cmap_index (nodes ?c1 ! 0) = 0
      \<and> hash (node (nodes ?c1 ! 0)) = FTC_CMAP_HASH demo_hash 1 0 65"
    by auto
  with h1 h2 h3 h4 show ?thesis by simp
qed

subsection \<open>C4: matching a node against a query\<close>

text \<open>
  C4.  \<^verbatim>\<open>ftc_cmap_node_compare\<close> holds exactly when the face identifiers are
  equal, the charmap indices are equal, and the 32-bit difference of the query's
  character code and the node's first code is below 128.  For a node whose first
  code is a multiple of 128, as the constructor makes it, a character code below
  the first code gives a difference of at least 128 and does not match, and two
  queries whose codes lie in different buckets never match the same node.
\<close>

theorem ftc_cmap_node_compare_iff:
  "(ftc_cmap_node_compare nd query \<longleftrightarrow>
      face_id nd = q_face_id query \<and> cmap_index nd = q_cmap_index query
      \<and> q_char_code query - first nd < 128)
   \<and> (128 dvd unat (first nd) \<longrightarrow> q_char_code query < first nd \<longrightarrow>
         128 \<le> q_char_code query - first nd \<and> \<not> ftc_cmap_node_compare nd query)
   \<and> (128 dvd unat (first nd) \<longrightarrow>
         q_char_code query div 128 * 128 \<noteq> q_char_code query' div 128 * 128 \<longrightarrow>
         \<not> (ftc_cmap_node_compare nd query \<and> ftc_cmap_node_compare nd query'))"
proof -
  have iff: "ftc_cmap_node_compare nd q \<longleftrightarrow>
      face_id nd = q_face_id q \<and> cmap_index nd = q_cmap_index q
      \<and> q_char_code q - first nd < 128" for q
    by (auto simp: ftc_cmap_node_compare_def FTC_CMAP_INDICES_MAX_def Let_def)
  have below: "128 \<le> q_char_code query - first nd"
    if "128 dvd unat (first nd)" "q_char_code query < first nd"
  proof (rule ccontr)
    assume "\<not> 128 \<le> q_char_code query - first nd"
    then have "q_char_code query - first nd < 128" by simp
    from aligned_offset [OF that(1) this] that(2) show False
      by (simp add: word_less_nat_alt)
  qed
  have bucket: "unat (q_char_code q) div 128 = unat (first nd) div 128"
    if "128 dvd unat (first nd)" "ftc_cmap_node_compare nd q" for q
  proof -
    from that(2) have "q_char_code q - first nd < 128" by (simp add: iff)
    from aligned_offset [OF that(1) this] that(1) show ?thesis
      by (auto simp: dvd_def)
  qed
  have same: "q_char_code query div 128 = q_char_code query' div 128"
    if "128 dvd unat (first nd)" "ftc_cmap_node_compare nd query"
       "ftc_cmap_node_compare nd query'"
    using bucket [OF that(1) that(2)] bucket [OF that(1) that(3)]
    by (simp add: word_unat_eq_iff unat_div)
  from iff [of query] below same show ?thesis
    by (auto simp: not_less [symmetric])
qed

text \<open>
  C4 on the node built for the code 300, whose first code is 256: the code 300
  matches, the code 5 lies below the first code and in another bucket and does
  not.
\<close>

theorem ftc_cmap_node_compare_iff_witness:
  "128 dvd unat (first demo_new_node)
   \<and> q_char_code (cmap_query 1 0 5) < first demo_new_node
   \<and> q_char_code (cmap_query 1 0 5) div 128 * 128 \<noteq> q_char_code (cmap_query 1 0 300) div 128 * 128
   \<and> 128 \<le> q_char_code (cmap_query 1 0 5) - first demo_new_node
   \<and> \<not> ftc_cmap_node_compare demo_new_node (cmap_query 1 0 5)
   \<and> (ftc_cmap_node_compare demo_new_node (cmap_query 1 0 300) \<longleftrightarrow>
        face_id demo_new_node = 1 \<and> cmap_index demo_new_node = 0 \<and> (300 :: 32 word) - 256 < 128)"
  using ftc_cmap_node_compare_iff [of demo_new_node "cmap_query 1 0 5" "cmap_query 1 0 300"]
    ftc_cmap_node_compare_iff [of demo_new_node "cmap_query 1 0 300" "cmap_query 1 0 5"]
  by (simp add: demo_new_node_def cmap_query_def norm_cmap_index_def)

subsection \<open>C5: a fresh node\<close>

text \<open>
  C5.  A node that \<^verbatim>\<open>ftc_cmap_node_new\<close> constructs for a query has
  \<open>first = (char_code / 128) * 128\<close>, so \<open>first\<close> is a multiple of 128,
  it is not above the character code and the code is less than 128 above it, and
  each of the 128 entries of \<open>indices\<close> is the sentinel 0xFFFF.
\<close>

theorem ftc_cmap_node_new_ok:
  assumes "ftc_cmap_node_new query cache = Inr nd"
  shows "first nd = (q_char_code query div 128) * 128
       \<and> 128 dvd unat (first nd)
       \<and> unat (first nd) \<le> unat (q_char_code query)
       \<and> unat (q_char_code query) - unat (first nd) < 128
       \<and> q_char_code query - first nd < 128
       \<and> (\<forall>i<128. indices nd i = 0xFFFF)"
  using assms by (rule node_new_Inr)

text \<open>
  C5 on the query for the code 300: the node's first code is 256 and the code lies
  44 above it.
\<close>

theorem ftc_cmap_node_new_ok_witness:
  "ftc_cmap_node_new (cmap_query 1 0 300) demo_cache = Inr demo_new_node
   \<and> first demo_new_node = 256
   \<and> 128 dvd unat (first demo_new_node)
   \<and> unat (first demo_new_node) \<le> unat (q_char_code (cmap_query 1 0 300))
   \<and> q_char_code (cmap_query 1 0 300) - first demo_new_node = 44
   \<and> indices demo_new_node 0 = 0xFFFF
   \<and> indices demo_new_node 127 = 0xFFFF"
proof -
  have h: "ftc_cmap_node_new (cmap_query 1 0 300) demo_cache = Inr demo_new_node"
    by (simp add: ftc_cmap_node_new_def cmap_query_def demo_cache_def demo_raw_def
          demo_new_node_def FTC_CMAP_INDICES_MAX_def norm_cmap_index_def)
  from ftc_cmap_node_new_ok [OF h] h show ?thesis
    by (simp add: cmap_query_def demo_new_node_def)
qed

subsection \<open>C6: a charmap index out of range\<close>

text \<open>
  C6.  A lookup whose entry is still to be resolved, whose face resolves, and
  whose charmap index, made 0 when negative, is not below the face's number of
  charmaps: the lookup returns 0 and stores 0 in the entry, having only resolved
  the face.  Every later lookup with the same arguments returns 0 and leaves the
  cache as it is, log included, so nothing is resolved again.
\<close>

theorem out_of_range_cached_zero:
  assumes unres: "unresolved fh c fid idx code" and face: "faces c fid = Some f"
    and count: "\<not> num_charmaps f <s 0"
    and out: "\<not> norm_cmap_index idx <s num_charmaps f"
  shows "\<exists>c'. FTC_CMapCache_Lookup fh (Some c) fid idx code = (0, Some c')
            \<and> calls c' = calls c @ [LookupFace fid]
            \<and> cmap_entry fh c' fid idx code = Some 0
            \<and> (\<forall>c''. (cache_step fh)\<^sup>*\<^sup>* c' c'' \<longrightarrow>
                   FTC_CMapCache_Lookup fh (Some c'') fid idx code = (0, Some c''))"
proof -
  have r: "\<not> norm_cmap_index idx < num_charmaps f"
    using norm_cmap_index_nonneg count out by (rule not_sless_imp_not_less)
  from Lookup_out_of_range [OF unres face r] obtain c' where
    l: "FTC_CMapCache_Lookup fh (Some c) fid idx code = (0, Some c')"
    and cs: "calls c' = calls c @ [LookupFace fid]"
    and e: "cmap_entry fh c' fid idx code = Some 0"
    by blast
  have z: "(0 :: 16 word) \<noteq> FTC_CMAP_UNKNOWN" by (simp add: FTC_CMAP_UNKNOWN_def)
  have "FTC_CMapCache_Lookup fh (Some c'') fid idx code = (0, Some c'')"
    if "(cache_step fh)\<^sup>*\<^sup>* c' c''" for c''
    using Lookup_hit [OF entry_persists [OF e z that] z] by simp
  with l cs e show ?thesis by blast
qed

text \<open>
  C6 on the small cache: charmap index 5 for a face that has 2 charmaps.
\<close>

theorem out_of_range_cached_zero_witness:
  "unresolved demo_hash demo_cache 1 5 65 \<and> faces demo_cache 1 = Some demo_face
   \<and> \<not> num_charmaps demo_face <s 0 \<and> \<not> norm_cmap_index 5 <s num_charmaps demo_face
   \<and> (\<exists>c'. FTC_CMapCache_Lookup demo_hash (Some demo_cache) 1 5 65 = (0, Some c')
          \<and> calls c' = [LookupFace 1]
          \<and> cmap_entry demo_hash c' 1 5 65 = Some 0
          \<and> FTC_CMapCache_Lookup demo_hash (Some c') 1 5 65 = (0, Some c')
          \<and> FTC_CMapCache_Lookup demo_hash
               (Some (c'\<lparr> faces := Map.empty, memory := None \<rparr>)) 1 5 65
              = (0, Some (c'\<lparr> faces := Map.empty, memory := None \<rparr>)))"
proof -
  have h: "unresolved demo_hash demo_cache 1 5 65" "faces demo_cache 1 = Some demo_face"
    "\<not> num_charmaps demo_face <s 0" "\<not> norm_cmap_index 5 <s num_charmaps demo_face"
    by (simp_all add: eval_defs)
  from out_of_range_cached_zero [OF h] obtain c' where
    c': "FTC_CMapCache_Lookup demo_hash (Some demo_cache) 1 5 65 = (0, Some c')"
      "calls c' = calls demo_cache @ [LookupFace 1]"
      "cmap_entry demo_hash c' 1 5 65 = Some 0"
      "\<forall>c''. (cache_step demo_hash)\<^sup>*\<^sup>* c' c'' \<longrightarrow>
           FTC_CMapCache_Lookup demo_hash (Some c'') 1 5 65 = (0, Some c'')"
    by blast
  have s: "(cache_step demo_hash)\<^sup>*\<^sup>* c' (c'\<lparr> faces := Map.empty, memory := None \<rparr>)"
    by (rule r_into_rtranclp) (rule world_step)
  from c'(4) s have l: "FTC_CMapCache_Lookup demo_hash (Some c') 1 5 65 = (0, Some c')"
    "FTC_CMapCache_Lookup demo_hash (Some (c'\<lparr> faces := Map.empty, memory := None \<rparr>)) 1 5 65
       = (0, Some (c'\<lparr> faces := Map.empty, memory := None \<rparr>))"
    by blast+
  from c'(1,2,3) l h show ?thesis by (auto simp: demo_cache_def)
qed

subsection \<open>C7: the face does not resolve\<close>

text \<open>
  C7.  A lookup whose entry is still to be resolved and whose face identifier does
  not resolve returns 0; its only call is the attempt to resolve the face; it
  leaves the sentinel in the entry and the nodes that were there untouched.  The
  next lookup with the same arguments, whatever has become of faces and memory in
  between, begins again with resolving the face.
\<close>

theorem face_failure_leaves_unknown:
  assumes unres: "unresolved fh c fid idx code" and fail: "faces c fid = None"
  shows "\<exists>c'. FTC_CMapCache_Lookup fh (Some c) fid idx code = (0, Some c')
            \<and> calls c' = calls c @ [LookupFace fid]
            \<and> cmap_entry fh c' fid idx code = Some FTC_CMAP_UNKNOWN
            \<and> (\<forall>k<length (nodes c). nodes c' ! k = nodes c ! k)
            \<and> (\<forall>fs m. \<exists>g2 c2 rest.
                   FTC_CMapCache_Lookup fh (Some (c'\<lparr> faces := fs, memory := m \<rparr>)) fid idx code
                     = (g2, Some c2)
                   \<and> calls c2 = calls c' @ LookupFace fid # rest)"
proof -
  from Lookup_face_fails [OF unres fail] obtain c' where
    l: "FTC_CMapCache_Lookup fh (Some c) fid idx code = (0, Some c')"
    and cs: "calls c' = calls c @ [LookupFace fid]"
    and e: "cmap_entry fh c' fid idx code = Some FTC_CMAP_UNKNOWN"
    and k: "\<forall>k<length (nodes c). nodes c' ! k = nodes c ! k"
    by blast
  have "\<exists>g2 c2 rest.
          FTC_CMapCache_Lookup fh (Some (c'\<lparr> faces := fs, memory := m \<rparr>)) fid idx code
             = (g2, Some c2)
          \<and> calls c2 = calls c' @ LookupFace fid # rest" for fs m
  proof -
    have "cmap_entry fh (c'\<lparr> faces := fs, memory := m \<rparr>) fid idx code = Some FTC_CMAP_UNKNOWN"
      using e by (simp add: cmap_entry_def cmap_node_of_def)
    then have "unresolved fh (c'\<lparr> faces := fs, memory := m \<rparr>) fid idx code"
      by (simp add: unresolved_def)
    from Lookup_attempts [OF this] show ?thesis by simp
  qed
  with l cs e k show ?thesis by blast
qed

text \<open>
  C7 on the small cache: the face identifier 2 is unknown at the first lookup and
  known at the second.
\<close>

theorem face_failure_leaves_unknown_witness:
  "unresolved demo_hash demo_cache 2 0 65 \<and> faces demo_cache 2 = None
   \<and> (\<exists>c'. FTC_CMapCache_Lookup demo_hash (Some demo_cache) 2 0 65 = (0, Some c')
          \<and> calls c' = [LookupFace 2]
          \<and> cmap_entry demo_hash c' 2 0 65 = Some FTC_CMAP_UNKNOWN
          \<and> (\<exists>g2 c2 rest.
                 FTC_CMapCache_Lookup demo_hash
                   (Some (c'\<lparr> faces := [2 \<mapsto> demo_face], memory := None \<rparr>)) 2 0 65
                   = (g2, Some c2)
                 \<and> calls c2 = calls c' @ LookupFace 2 # rest))"
proof -
  have h: "unresolved demo_hash demo_cache 2 0 65" "faces demo_cache 2 = None"
    by (simp_all add: eval_defs)
  from face_failure_leaves_unknown [OF h] obtain c' where
    c': "FTC_CMapCache_Lookup demo_hash (Some demo_cache) 2 0 65 = (0, Some c')"
      "calls c' = calls demo_cache @ [LookupFace 2]"
      "cmap_entry demo_hash c' 2 0 65 = Some FTC_CMAP_UNKNOWN"
      "\<forall>fs m. \<exists>g2 c2 rest.
          FTC_CMapCache_Lookup demo_hash (Some (c'\<lparr> faces := fs, memory := m \<rparr>)) 2 0 65
            = (g2, Some c2)
          \<and> calls c2 = calls c' @ LookupFace 2 # rest"
    by blast
  from c'(4) have "\<exists>g2 c2 rest.
          FTC_CMapCache_Lookup demo_hash
            (Some (c'\<lparr> faces := [2 \<mapsto> demo_face], memory := None \<rparr>)) 2 0 65
            = (g2, Some c2)
          \<and> calls c2 = calls c' @ LookupFace 2 # rest"
    by blast
  with c'(1,2,3) h show ?thesis by (auto simp: demo_cache_def)
qed

subsection \<open>C8: the weight of a node\<close>

text \<open>
  C8.  \<^verbatim>\<open>ftc_cmap_node_weight\<close> is the same for every node, whatever its
  entries hold, but it is the size of the generic header \<^verbatim>\<open>FTC_NodeRec\<close>, not
  the size of the cmap node: the 128 glyph indices and the other fields of
  \<^verbatim>\<open>FTC_CMapNodeRec\<close>, 264 bytes at least, are not counted.  With a header of
  40 bytes and pointers of 8 bytes the weight is 40 and the node has 312 bytes.
\<close>

theorem ftc_cmap_node_weight_is_header_size:
  "ftc_cmap_node_weight sz nd cache = sz
   \<and> ftc_cmap_node_weight sz nd cache = ftc_cmap_node_weight sz nd' cache'
   \<and> ftc_cmap_node_weight sz nd cache + 264 \<le> sizeof_FTC_CMapNodeRec sz p pad
   \<and> ftc_cmap_node_weight 40 demo_new_node demo_cache = 40
   \<and> sizeof_FTC_CMapNodeRec 40 8 0 = 312"
  by (simp add: ftc_cmap_node_weight_def sizeof_FTC_CMapNodeRec_def)

subsection \<open>C9: glyph indices are stored in 16 bits\<close>

text \<open>
  C9.  A lookup that resolves with a charmap index in range returns the glyph
  index \<open>g\<close> as the font gives it and stores it cut to 16 bits.  When the low
  16 bits of \<open>g\<close> are not 0xFFFF, every later lookup with the same arguments
  returns \<open>g\<close> modulo \<open>2 ^ 16\<close>, which differs from \<open>g\<close> when
  \<open>g\<close> is 0x10000 or more.  When the low 16 bits are 0xFFFF, what is stored
  is the sentinel: the next lookup resolves again, with the same calls and the same
  result, and leaves the sentinel once more.
\<close>

theorem glyph_index_truncated:
  assumes unres: "unresolved fh c fid idx code" and face: "faces c fid = Some f"
    and inrange: "norm_cmap_index idx < num_charmaps f"
    and g: "g = char_index f (if idx <s 0 then charmap f else charmaps f (unat idx)) code"
  shows "\<exists>c'. FTC_CMapCache_Lookup fh (Some c) fid idx code = (g, Some c')
            \<and> cmap_entry fh c' fid idx code = Some (ucast g)
            \<and> (g AND 0xFFFF \<noteq> 0xFFFF \<longrightarrow>
                  (\<forall>c''. (cache_step fh)\<^sup>*\<^sup>* c' c'' \<longrightarrow>
                     FTC_CMapCache_Lookup fh (Some c'') fid idx code = (g AND 0xFFFF, Some c''))
                  \<and> (0x10000 \<le> g \<longrightarrow> g AND 0xFFFF \<noteq> g))
            \<and> (g AND 0xFFFF = 0xFFFF \<longrightarrow>
                  cmap_entry fh c' fid idx code = Some FTC_CMAP_UNKNOWN
                  \<and> (\<exists>c''. FTC_CMapCache_Lookup fh (Some c') fid idx code = (g, Some c'')
                         \<and> calls c'' = calls c' @ drop (length (calls c)) (calls c')
                         \<and> cmap_entry fh c'' fid idx code = Some FTC_CMAP_UNKNOWN))"
proof -
  define tgt where "tgt = charmaps f (unat (norm_cmap_index idx))"
  define sw where "sw \<longleftrightarrow> charmap f \<noteq> tgt \<and> \<not> idx <s 0"
  define new where "new = LookupFace fid # (if sw then [SetCharmap fid tgt] else []) @
                            GetCharIndex fid code #
                            (if sw then [SetCharmap fid (charmap f)] else [])"
  have g': "g = char_index f (if sw then tgt else charmap f) code"
    by (auto simp: g sw_def tgt_def norm_cmap_index_def)
  from Lookup_in_range [OF unres face inrange tgt_def sw_def g'] obtain c' where
    l: "FTC_CMapCache_Lookup fh (Some c) fid idx code = (g, Some c')"
    and cs: "calls c' = calls c @ new"
    and e: "cmap_entry fh c' fid idx code = Some (ucast g)"
    and fr: "faces c' = faces c"
    by (auto simp: new_def)
  have cached: "FTC_CMapCache_Lookup fh (Some c'') fid idx code = (g AND 0xFFFF, Some c'')"
    if "g AND 0xFFFF \<noteq> 0xFFFF" "(cache_step fh)\<^sup>*\<^sup>* c' c''" for c''
  proof -
    from that(1) have v: "(ucast g :: 16 word) \<noteq> FTC_CMAP_UNKNOWN"
      by (simp add: low_bits_sentinel)
    from Lookup_hit [OF entry_persists [OF e v that(2)] v] show ?thesis
      by (simp add: ucast_16_32_and)
  qed
  have again: "\<exists>c''. FTC_CMapCache_Lookup fh (Some c') fid idx code = (g, Some c'')
                         \<and> calls c'' = calls c' @ drop (length (calls c)) (calls c')
                         \<and> cmap_entry fh c'' fid idx code = Some FTC_CMAP_UNKNOWN"
    and unk: "cmap_entry fh c' fid idx code = Some FTC_CMAP_UNKNOWN"
    if s: "g AND 0xFFFF = 0xFFFF"
  proof -
    from s have v: "(ucast g :: 16 word) = FTC_CMAP_UNKNOWN" by (simp add: low_bits_sentinel)
    with e show unk: "cmap_entry fh c' fid idx code = Some FTC_CMAP_UNKNOWN" by simp
    then have u': "unresolved fh c' fid idx code" by (simp add: unresolved_def)
    have f': "faces c' fid = Some f" using face fr by simp
    from Lookup_in_range [OF u' f' inrange tgt_def sw_def g'] v cs
    show "\<exists>c''. FTC_CMapCache_Lookup fh (Some c') fid idx code = (g, Some c'')
                         \<and> calls c'' = calls c' @ drop (length (calls c)) (calls c')
                         \<and> cmap_entry fh c'' fid idx code = Some FTC_CMAP_UNKNOWN"
      by (auto simp: new_def)
  qed
  from l e cached again unk wide_index_cut [of g] show ?thesis by blast
qed

text \<open>
  C9 on the small cache: the code 66 has glyph index 65537, later lookups return
  1; the code 67 has glyph index 65535 and is resolved at every lookup.
\<close>

theorem glyph_index_truncated_witness:
  "unresolved demo_hash demo_cache 1 0 66 \<and> unresolved demo_hash demo_cache 1 0 67
   \<and> faces demo_cache 1 = Some demo_face \<and> norm_cmap_index 0 < num_charmaps demo_face
   \<and> char_index demo_face (charmaps demo_face (unat (0 :: FT_TS_Int))) 66 = 0x10001
   \<and> char_index demo_face (charmaps demo_face (unat (0 :: FT_TS_Int))) 67 = 0xFFFF
   \<and> (\<exists>c'. FTC_CMapCache_Lookup demo_hash (Some demo_cache) 1 0 66 = (0x10001, Some c')
          \<and> cmap_entry demo_hash c' 1 0 66 = Some 1
          \<and> FTC_CMapCache_Lookup demo_hash (Some c') 1 0 66 = (1, Some c')
          \<and> FTC_CMapCache_Lookup demo_hash
               (Some (c'\<lparr> faces := Map.empty, memory := None \<rparr>)) 1 0 66
              = (1, Some (c'\<lparr> faces := Map.empty, memory := None \<rparr>)))
   \<and> (\<exists>c'. FTC_CMapCache_Lookup demo_hash (Some demo_cache) 1 0 67 = (0xFFFF, Some c')
          \<and> cmap_entry demo_hash c' 1 0 67 = Some FTC_CMAP_UNKNOWN
          \<and> (\<exists>c''. FTC_CMapCache_Lookup demo_hash (Some c') 1 0 67 = (0xFFFF, Some c'')
                 \<and> length (calls c'') = 2 * length (calls c')
                 \<and> cmap_entry demo_hash c'' 1 0 67 = Some FTC_CMAP_UNKNOWN))"
proof -
  have h: "unresolved demo_hash demo_cache 1 0 66" "unresolved demo_hash demo_cache 1 0 67"
    "faces demo_cache 1 = Some demo_face" "norm_cmap_index 0 < num_charmaps demo_face"
    by (simp_all add: eval_defs)
  have g: "char_index demo_face (charmaps demo_face (unat (0 :: FT_TS_Int))) 66 = 0x10001"
    "char_index demo_face (charmaps demo_face (unat (0 :: FT_TS_Int))) 67 = 0xFFFF"
    by (simp_all add: demo_face_def)
  have g': "0x10001 = char_index demo_face
              (if (0 :: FT_TS_Int) <s 0 then charmap demo_face else charmaps demo_face (unat (0 :: FT_TS_Int))) 66"
    "0xFFFF = char_index demo_face
              (if (0 :: FT_TS_Int) <s 0 then charmap demo_face else charmaps demo_face (unat (0 :: FT_TS_Int))) 67"
    by (simp_all add: demo_face_def)
  have a: "(0x10001 :: 32 word) AND 0xFFFF = 1" "(0xFFFF :: 32 word) AND 0xFFFF = 0xFFFF"
    by simp_all
  from glyph_index_truncated [OF h(1) h(3) h(4) g'(1)] obtain c' where
    c': "FTC_CMapCache_Lookup demo_hash (Some demo_cache) 1 0 66 = (0x10001, Some c')"
      "cmap_entry demo_hash c' 1 0 66 = Some 1"
      "\<forall>c''. (cache_step demo_hash)\<^sup>*\<^sup>* c' c'' \<longrightarrow>
                 FTC_CMapCache_Lookup demo_hash (Some c'') 1 0 66 = (1, Some c'')"
    by (auto simp: a wide_numeral_16)
  have s: "(cache_step demo_hash)\<^sup>*\<^sup>* c' (c'\<lparr> faces := Map.empty, memory := None \<rparr>)"
    by (rule r_into_rtranclp) (rule world_step)
  from c'(3) s have l: "FTC_CMapCache_Lookup demo_hash (Some c') 1 0 66 = (1, Some c')"
    "FTC_CMapCache_Lookup demo_hash (Some (c'\<lparr> faces := Map.empty, memory := None \<rparr>)) 1 0 66
       = (1, Some (c'\<lparr> faces := Map.empty, memory := None \<rparr>))"
    by blast+
  from c'(1,2) l
  have w: "\<exists>c'. FTC_CMapCache_Lookup demo_hash (Some demo_cache) 1 0 66 = (0x10001, Some c')
          \<and> cmap_entry demo_hash c' 1 0 66 = Some 1
          \<and> FTC_CMapCache_Lookup demo_hash (Some c') 1 0 66 = (1, Some c')
          \<and> FTC_CMapCache_Lookup demo_hash
               (Some (c'\<lparr> faces := Map.empty, memory := None \<rparr>)) 1 0 66
              = (1, Some (c'\<lparr> faces := Map.empty, memory := None \<rparr>))"
    by blast
  from glyph_index_truncated [OF h(2) h(3) h(4) g'(2)]
  have s: "\<exists>c'. FTC_CMapCache_Lookup demo_hash (Some demo_cache) 1 0 67 = (0xFFFF, Some c')
          \<and> cmap_entry demo_hash c' 1 0 67 = Some FTC_CMAP_UNKNOWN
          \<and> (\<exists>c''. FTC_CMapCache_Lookup demo_hash (Some c') 1 0 67 = (0xFFFF, Some c'')
                 \<and> length (calls c'') = 2 * length (calls c')
                 \<and> cmap_entry demo_hash c'' 1 0 67 = Some FTC_CMAP_UNKNOWN)"
    by (auto simp: a demo_cache_def)
  from h g w s show ?thesis by simp
qed

subsection \<open>C10: what a negative charmap index caches\<close>

text \<open>
  C10.  With a negative charmap index and a face that has a charmap, a lookup that
  resolves asks the font under the charmap that is active at that moment, sets no
  charmap, and stores the result under the key with charmap index 0.  Unless what
  is stored is the sentinel, every later lookup with the charmap index 0 proper
  returns that result, whatever charmap 0 of the face would have given.  Two runs
  that differ in the active charmap only store different glyph indices under the
  same key: on the small cache 7 when charmap 11 is active, 36 when charmap 10
  is.
\<close>

theorem no_change_mode_caches_active_charmap:
  "(idx <s 0 \<and> unresolved fh c fid 0 code \<and> faces c fid = Some f \<and> 0 < num_charmaps f \<longrightarrow>
      (\<exists>c'. FTC_CMapCache_Lookup fh (Some c) fid idx code = (char_index f (charmap f) code, Some c')
          \<and> calls c' = calls c @ [LookupFace fid, GetCharIndex fid code]
          \<and> cmap_entry fh c' fid 0 code = Some (ucast (char_index f (charmap f) code))
          \<and> (char_index f (charmap f) code AND 0xFFFF \<noteq> 0xFFFF \<longrightarrow>
                (\<forall>c''. (cache_step fh)\<^sup>*\<^sup>* c' c'' \<longrightarrow>
                   FTC_CMapCache_Lookup fh (Some c'') fid 0 code
                     = (char_index f (charmap f) code AND 0xFFFF, Some c'')))))
   \<and> (\<exists>c1 c2. FTC_CMapCache_Lookup fh (Some demo_cache) 1 (- 1) 65 = (7, Some c1)
          \<and> FTC_CMapCache_Lookup fh
               (Some (demo_cache\<lparr> faces := [1 \<mapsto> demo_face\<lparr> charmap := 10 \<rparr>] \<rparr>)) 1 (- 1) 65
               = (36, Some c2)
          \<and> cmap_entry fh c1 1 0 65 = Some 7
          \<and> cmap_entry fh c2 1 0 65 = Some 36)"
proof -
  have gen: "\<exists>c'. FTC_CMapCache_Lookup fh (Some c) fid idx code = (char_index f (charmap f) code, Some c')
          \<and> calls c' = calls c @ [LookupFace fid, GetCharIndex fid code]
          \<and> cmap_entry fh c' fid 0 code = Some (ucast (char_index f (charmap f) code))
          \<and> (char_index f (charmap f) code AND 0xFFFF \<noteq> 0xFFFF \<longrightarrow>
                (\<forall>c''. (cache_step fh)\<^sup>*\<^sup>* c' c'' \<longrightarrow>
                   FTC_CMapCache_Lookup fh (Some c'') fid 0 code
                     = (char_index f (charmap f) code AND 0xFFFF, Some c'')))"
    if neg: "idx <s 0" and u0: "unresolved fh c fid 0 code" and f: "faces c fid = Some f"
      and r0: "0 < num_charmaps f" for idx c fid code f
  proof -
    let ?g = "char_index f (charmap f) code"
    have u: "unresolved fh c fid idx code" using u0 by (simp add: neg_index_unresolved [OF neg])
    have r: "norm_cmap_index idx < num_charmaps f" using r0 neg by (simp add: norm_cmap_index_def)
    from Lookup_in_range [OF u f r refl refl refl] neg obtain c' where
      l: "FTC_CMapCache_Lookup fh (Some c) fid idx code = (?g, Some c')"
      and cs: "calls c' = calls c @ [LookupFace fid, GetCharIndex fid code]"
      and e: "cmap_entry fh c' fid 0 code = Some (ucast ?g)"
      by (auto simp: neg_index_entry)
    have "FTC_CMapCache_Lookup fh (Some c'') fid 0 code = (?g AND 0xFFFF, Some c'')"
      if "?g AND 0xFFFF \<noteq> 0xFFFF" "(cache_step fh)\<^sup>*\<^sup>* c' c''" for c''
    proof -
      from that(1) have v: "(ucast ?g :: 16 word) \<noteq> FTC_CMAP_UNKNOWN"
        by (simp add: low_bits_sentinel)
      from Lookup_hit [OF entry_persists [OF e v that(2)] v] show ?thesis
        by (simp add: ucast_16_32_and)
    qed
    with l cs e show ?thesis by blast
  qed
  have n: "(- 1 :: FT_TS_Int) <s 0" by (simp add: word_sless_alt)
  have u1: "unresolved fh demo_cache 1 0 65"
    by (simp add: unresolved_def cmap_entry_def cmap_node_of_def demo_cache_def)
  have u2: "unresolved fh (demo_cache\<lparr> faces := [1 \<mapsto> demo_face\<lparr> charmap := 10 \<rparr>] \<rparr>) 1 0 65"
    by (simp add: unresolved_def cmap_entry_def cmap_node_of_def demo_cache_def)
  from gen [OF n u1, of demo_face] gen [OF n u2, of "demo_face\<lparr> charmap := 10 \<rparr>"]
  have "\<exists>c1 c2. FTC_CMapCache_Lookup fh (Some demo_cache) 1 (- 1) 65 = (7, Some c1)
          \<and> FTC_CMapCache_Lookup fh
               (Some (demo_cache\<lparr> faces := [1 \<mapsto> demo_face\<lparr> charmap := 10 \<rparr>] \<rparr>)) 1 (- 1) 65
               = (36, Some c2)
          \<and> cmap_entry fh c1 1 0 65 = Some 7
          \<and> cmap_entry fh c2 1 0 65 = Some 36"
    by (auto simp: demo_cache_def demo_face_def)
  with gen show ?thesis by blast
qed

text \<open>
  C10 on the small cache, where charmap 11 is active and charmap 0 has the handle
  10: the lookup with index -1 stores 7, and a lookup with index 0 then returns 7,
  although charmap 0 has glyph 36 for the code.
\<close>

theorem no_change_mode_caches_active_charmap_witness:
  "(- 1 :: FT_TS_Int) <s 0 \<and> unresolved demo_hash demo_cache 1 0 65
   \<and> faces demo_cache 1 = Some demo_face \<and> 0 < num_charmaps demo_face
   \<and> charmap demo_face = 11 \<and> charmaps demo_face 0 = 10
   \<and> char_index demo_face 10 65 = 36
   \<and> (\<exists>c'. FTC_CMapCache_Lookup demo_hash (Some demo_cache) 1 (- 1) 65 = (7, Some c')
          \<and> calls c' = [LookupFace 1, GetCharIndex 1 65]
          \<and> cmap_entry demo_hash c' 1 0 65 = Some 7
          \<and> FTC_CMapCache_Lookup demo_hash (Some c') 1 0 65 = (7, Some c'))"
proof -
  have h: "(- 1 :: FT_TS_Int) <s 0 \<and> unresolved demo_hash demo_cache 1 0 65
     \<and> faces demo_cache 1 = Some demo_face \<and> 0 < num_charmaps demo_face"
    by (simp add: unresolved_def cmap_entry_def cmap_node_of_def demo_cache_def
          demo_face_def word_sless_alt)
  have g: "char_index demo_face (charmap demo_face) 65 = 7"
    "charmap demo_face = 11 \<and> charmaps demo_face 0 = 10 \<and> char_index demo_face 10 65 = 36"
    by (simp_all add: demo_face_def)
  from no_change_mode_caches_active_charmap [of "- 1" demo_hash demo_cache 1 65 demo_face] h
  obtain c' where c': "FTC_CMapCache_Lookup demo_hash (Some demo_cache) 1 (- 1) 65 = (7, Some c')"
    "calls c' = calls demo_cache @ [LookupFace 1, GetCharIndex 1 65]"
    "cmap_entry demo_hash c' 1 0 65 = Some 7"
    "\<forall>c''. (cache_step demo_hash)\<^sup>*\<^sup>* c' c'' \<longrightarrow>
        FTC_CMapCache_Lookup demo_hash (Some c'') 1 0 65 = (7, Some c'')"
    by (auto simp: g)
  from c'(4) have "FTC_CMapCache_Lookup demo_hash (Some c') 1 0 65 = (7, Some c')" by blast
  with c'(1,2,3) h g show ?thesis by (auto simp: demo_cache_def)
qed

end
